theory Spec2Isabelle
  imports Complex_Main "HOL-Library.Word"
begin

section \<open>Numeric types of the covariance engine\<close>

text \<open>
  The translation unit \<^verbatim>\<open>covariance.cpp\<close> instantiates \<^verbatim>\<open>cov_data\<close>, \<^verbatim>\<open>cov_acc\<close> and
  \<^verbatim>\<open>cov_result\<close> for \<^verbatim>\<open>double\<close>; this development embeds that instantiation.

  \<^item> \<^verbatim>\<open>size_t\<close> is a 64-bit unsigned word (LP64): \<^verbatim>\<open>count_ - 1\<close> wraps at zero.
  \<^item> \<^verbatim>\<open>double\<close> is embedded over exact arithmetic: a finite value is a real number
    (rounding and overflow to infinity are not modelled), and \<open>NonFinite\<close> stands for
    the IEEE results \<^verbatim>\<open>inf\<close> and \<^verbatim>\<open>NaN\<close>. IEEE division never traps: dividing by zero
    yields \<^verbatim>\<open>inf\<close> or \<^verbatim>\<open>NaN\<close>, and under \<^verbatim>\<open>+\<close>, \<^verbatim>\<open>-\<close>, \<^verbatim>\<open>*\<close> and division by a
    finite number such a value never becomes finite again. Every divisor and every scalar
    factor in the code below is a \<^verbatim>\<open>size_t\<close> converted to \<^verbatim>\<open>double\<close>, hence finite, so
    the scalar operand of \<open>ddiv\<close> and \<open>dscale\<close> is a real number.
\<close>

type_synonym size_t = "64 word"

datatype double = Fin real | NonFinite

fun dadd :: "double \<Rightarrow> double \<Rightarrow> double" where
  "dadd (Fin x) (Fin y) = Fin (x + y)"
| "dadd _ _ = NonFinite"

fun dsub :: "double \<Rightarrow> double \<Rightarrow> double" where
  "dsub (Fin x) (Fin y) = Fin (x - y)"
| "dsub _ _ = NonFinite"

fun dmul :: "double \<Rightarrow> double \<Rightarrow> double" where
  "dmul (Fin x) (Fin y) = Fin (x * y)"
| "dmul _ _ = NonFinite"

fun ddiv :: "double \<Rightarrow> real \<Rightarrow> double" where
  "ddiv (Fin x) d = (if d = 0 then NonFinite else Fin (x / d))"
| "ddiv NonFinite d = NonFinite"

fun dscale :: "real \<Rightarrow> double \<Rightarrow> double" where
  "dscale c (Fin x) = Fin (c * x)"
| "dscale c NonFinite = NonFinite"

fun is_finite :: "double \<Rightarrow> bool" where
  "is_finite (Fin x) = True"
| "is_finite NonFinite = False"

definition to_double :: "size_t \<Rightarrow> real" where
  \<comment> \<open>the implicit conversion of a \<^verbatim>\<open>size_t\<close> scalar to \<^verbatim>\<open>double\<close>\<close>
  "to_double c = real (unat c)"

section \<open>The data store \<^verbatim>\<open>cov_data\<close>\<close>

text \<open>
  Members are named as in the source without the trailing underscore, which is how the
  accessors \<^verbatim>\<open>data()\<close>, \<^verbatim>\<open>data2()\<close> and \<^verbatim>\<open>count()\<close> name them.
  \<^verbatim>\<open>data_\<close> is an Eigen column of length \<open>size\<close>, \<^verbatim>\<open>data2_\<close> an Eigen matrix of
  \<open>size \<times> size\<close> entries, held here as Eigen stores it: one flat buffer in column-major
  order, entry \<open>(i, j)\<close> at index \<open>i + size * j\<close>. The coefficient-wise operators
  \<^verbatim>\<open>+=\<close>, \<^verbatim>\<open>-=\<close>, \<^verbatim>\<open>*=\<close>, \<^verbatim>\<open>/=\<close> then are maps over the buffers. Eigen requires equal
  dimensions of both operands; \<open>wf_data\<close> is that shape invariant, which the
  constructor establishes and every operation keeps.
\<close>

record cov_data =
  data :: "double list"
  data2 :: "double list"
  count :: size_t

definition wf_data :: "cov_data \<Rightarrow> bool" where
  "wf_data d \<longleftrightarrow> length (data2 d) = length (data d) * length (data d)"

definition outer :: "double list \<Rightarrow> double list \<Rightarrow> double list" where
  \<comment> \<open>Modelled from the spec: \<^verbatim>\<open>internal::outer\<close> (\<^verbatim>\<open>internal/outer.hpp\<close>) is not among the
      sources; for real element type it is the outer product \<open>x \<otimes> y\<close>, entry \<open>(i, j)\<close>
      being \<open>x\<^sub>i * y\<^sub>j\<close>.\<close>
  "outer x y = concat (map (\<lambda>yj. map (\<lambda>xi. dmul xi yj) x) y)"

definition cov_data_reset :: "cov_data \<Rightarrow> cov_data" where
  "cov_data_reset d =
     d\<lparr>data := map (\<lambda>_. Fin 0) (data d),
       data2 := map (\<lambda>_. Fin 0) (data2 d),
       count := 0\<rparr>"

definition new_cov_data :: "nat \<Rightarrow> cov_data" where
  \<comment> \<open>the constructor \<^verbatim>\<open>cov_data(size)\<close>: allocate both buffers, then \<^verbatim>\<open>reset()\<close>\<close>
  "new_cov_data n =
     cov_data_reset \<lparr>data = replicate n NonFinite,
                     data2 = replicate (n * n) NonFinite,
                     count = 0\<rparr>"

definition convert_to_mean :: "cov_data \<Rightarrow> cov_data" where
  "convert_to_mean d =
     (let d1 = d\<lparr>data := map (\<lambda>x. ddiv x (to_double (count d))) (data d)\<rparr>;
          d2 = d1\<lparr>data2 := map2 dsub (data2 d1)
                     (map (dscale (to_double (count d1))) (outer (data d1) (data d1)))\<rparr>
      in d2\<lparr>data2 := map (\<lambda>x. ddiv x (to_double (count d2 - 1))) (data2 d2)\<rparr>)"

definition convert_to_sum :: "cov_data \<Rightarrow> cov_data" where
  "convert_to_sum d =
     (let d1 = d\<lparr>data2 := map (dscale (to_double (count d - 1))) (data2 d)\<rparr>;
          d2 = d1\<lparr>data2 := map2 dadd (data2 d1)
                     (map (dscale (to_double (count d1))) (outer (data d1) (data d1)))\<rparr>
      in d2\<lparr>data := map (dscale (to_double (count d2))) (data d2)\<rparr>)"

section \<open>Errors\<close>

datatype error =
    finalized_accumulator  \<comment> \<open>thrown by \<^verbatim>\<open>internal::check_valid\<close>\<close>
  | size_mismatch          \<comment> \<open>thrown by the adapters' \<^verbatim>\<open>add_to\<close>\<close>
  | eigen_assertion        \<comment> \<open>Eigen's run-time dimension check of a coefficient-wise operator\<close>
  | failed_operation       \<comment> \<open>thrown by \<^verbatim>\<open>mpi::checked\<close>\<close>
  | out_of_range           \<comment> \<open>the level lookup below the floor\<close>

section \<open>Input adapters (\<^verbatim>\<open>computed.hpp\<close>)\<close>

text \<open>
  A sample reaches an accumulator as a \<^verbatim>\<open>computed<T>\<close>. The three adapters that wrap
  plain data are embedded: a scalar, a \<^verbatim>\<open>std::vector\<close>, and an Eigen vector expression,
  which \<^verbatim>\<open>EIGEN_STATIC_ASSERT_VECTOR_ONLY\<close> lets be a column (\<open>cols = 1\<close>) or a row
  (\<open>rows = 1\<close>) with \<open>rows * cols\<close> coefficients. The proxy \<^verbatim>\<open>computed_cmember\<close> forwards
  to a member function of its caller and is left out.

  A \<^verbatim>\<open>sink<T>\<close> is a pointer with a length; the functions below take the buffer it
  views and return the buffer after the writes.
\<close>

datatype computed =
    Value_adapter double
  | Vector_adapter "double list"
  | Eigen_adapter nat nat "double list"  \<comment> \<open>rows, columns, coefficients\<close>

fun computed_size :: "computed \<Rightarrow> nat" where
  "computed_size (Value_adapter v) = 1"
| "computed_size (Vector_adapter xs) = length xs"
| "computed_size (Eigen_adapter r c xs) = r * c"

fun wf_computed :: "computed \<Rightarrow> bool" where
  "wf_computed (Eigen_adapter r c xs) \<longleftrightarrow> (r = 1 \<or> c = 1) \<and> length xs = r * c"
| "wf_computed _ \<longleftrightarrow> True"

fun vector_add_loop :: "nat \<Rightarrow> double list \<Rightarrow> double list \<Rightarrow> double list" where
  \<comment> \<open>\<^verbatim>\<open>for (i = 0; i != in_.size(); ++i) out[i] += in_[i]\<close> with \<open>n\<close> iterations still
      to run, so that \<open>i = in_.size() - n\<close>\<close>
  "vector_add_loop 0 xs out = out"
| "vector_add_loop (Suc n) xs out =
     (let i = length xs - Suc n in vector_add_loop n xs (out[i := dadd (out ! i) (xs ! i)]))"

fun add_to :: "computed \<Rightarrow> double list \<Rightarrow> error + double list" where
  \<comment> \<open>\<^verbatim>\<open>eigen_adapter::add_to\<close> compares the sink with \<^verbatim>\<open>in_.rows()\<close>; its
      \<^verbatim>\<open>out_map += in_\<close> then needs as many coefficients as the sink has, which Eigen
      checks by an assertion\<close>
  "add_to (Value_adapter v) out =
     (if length out \<noteq> 1 then Inl size_mismatch
      else Inr (out[0 := dadd (out ! 0) v]))"
| "add_to (Vector_adapter xs) out =
     (if length out \<noteq> length xs then Inl size_mismatch
      else Inr (vector_add_loop (length xs) xs out))"
| "add_to (Eigen_adapter r c xs) out =
     (if length out \<noteq> r then Inl size_mismatch
      else if length out \<noteq> r * c then Inl eigen_assertion
      else Inr (map2 dadd out xs))"

fun coefficients :: "computed \<Rightarrow> double list" where
  "coefficients (Value_adapter v) = [v]"
| "coefficients (Vector_adapter xs) = xs"
| "coefficients (Eigen_adapter r c xs) = xs"

fun is_row_expression :: "computed \<Rightarrow> bool" where
  \<comment> \<open>an Eigen expression that is not a column: \<^verbatim>\<open>rows()\<close> and \<^verbatim>\<open>size()\<close> can differ\<close>
  "is_row_expression (Eigen_adapter r c xs) \<longleftrightarrow> c \<noteq> 1"
| "is_row_expression _ \<longleftrightarrow> False"

section \<open>The bundle of pending samples\<close>

text \<open>
  Modelled from the spec: the class \<^verbatim>\<open>bundle<T>\<close> behind the member \<^verbatim>\<open>current_\<close> is
  declared in a header that is not among the sources. The spec describes it as the
  partial sum of the raw samples that do not yet complete a full bundle of
  \<open>batch_size\<close> samples; \<^verbatim>\<open>covariance.cpp\<close> uses its members \<^verbatim>\<open>sum()\<close>, \<^verbatim>\<open>count()\<close>,
  \<^verbatim>\<open>size()\<close>, \<^verbatim>\<open>is_full()\<close> and \<^verbatim>\<open>reset()\<close>, and constructs it from a size and a
  target. The type is named \<open>bundle_buffer\<close> here.
\<close>

record bundle_buffer =
  bundle_sum :: "double list"
  bundle_target :: size_t
  bundle_count :: size_t

definition bundle_size :: "bundle_buffer \<Rightarrow> nat" where
  \<comment> \<open>Modelled from the spec: \<^verbatim>\<open>bundle::size()\<close>, the length of the partial sum.\<close>
  "bundle_size b = length (bundle_sum b)"

definition is_full :: "bundle_buffer \<Rightarrow> bool" where
  \<comment> \<open>Modelled from the spec: \<^verbatim>\<open>bundle::is_full()\<close>, the bundle holds \<open>batch_size\<close> samples.\<close>
  "is_full b \<longleftrightarrow> bundle_target b \<le> bundle_count b"

definition bundle_reset :: "bundle_buffer \<Rightarrow> bundle_buffer" where
  \<comment> \<open>Modelled from the spec: \<^verbatim>\<open>bundle::reset()\<close>, an empty partial sum.\<close>
  "bundle_reset b = b\<lparr>bundle_sum := map (\<lambda>_. Fin 0) (bundle_sum b), bundle_count := 0\<rparr>"

definition new_bundle :: "nat \<Rightarrow> size_t \<Rightarrow> bundle_buffer" where
  \<comment> \<open>Modelled from the spec: the constructor \<^verbatim>\<open>bundle(size, target)\<close>.\<close>
  "new_bundle n t =
     bundle_reset \<lparr>bundle_sum = replicate n NonFinite, bundle_target = t, bundle_count = 0\<rparr>"

section \<open>The accumulator \<^verbatim>\<open>cov_acc\<close>\<close>

text \<open>
  \<^verbatim>\<open>store_\<close> is a \<^verbatim>\<open>std::unique_ptr<cov_data>\<close>: the data store has exactly one owner, so
  it is an optional value, \<open>None\<close> being the null pointer; \<^verbatim>\<open>new cov_data(x)\<close> is a copy
  of \<open>x\<close> and \<^verbatim>\<open>swap\<close> exchanges two optional values. \<^verbatim>\<open>uplevel_\<close> is a non-owning
  pointer to the accumulator that receives every completed bundle; the embedding keeps
  the chain of receivers inside the accumulator, which makes the chain finite and acyclic.

  A member function that can throw returns the exception, if any, together with the
  object as the exception leaves it.
\<close>

datatype cov_acc =
  Cov_acc (store: "cov_data option") (current: bundle_buffer) (uplevel: "cov_acc option")

definition valid :: "cov_acc \<Rightarrow> bool" where
  \<comment> \<open>Modelled from the spec: \<^verbatim>\<open>cov_acc::valid()\<close> is declared in \<^verbatim>\<open>covariance.hpp\<close>, which is
      not among the sources; an accumulator is valid until its internal storage is
      transferred out.\<close>
  "valid acc \<longleftrightarrow> store acc \<noteq> None"

definition cov_acc_size :: "cov_acc \<Rightarrow> nat" where
  \<comment> \<open>Modelled from the spec: \<^verbatim>\<open>cov_acc::size()\<close> is declared in \<^verbatim>\<open>covariance.hpp\<close>; the size
      is fixed at construction and outlives the store, as \<^verbatim>\<open>reset()\<close> needs it.\<close>
  "cov_acc_size acc = bundle_size (current acc)"

definition new_cov_acc :: "nat \<Rightarrow> size_t \<Rightarrow> cov_acc" where
  "new_cov_acc n bundle_sz = Cov_acc (Some (new_cov_data n)) (new_bundle n bundle_sz) None"

definition check_valid :: "cov_acc \<Rightarrow> error option" where
  \<comment> \<open>\<^verbatim>\<open>internal::check_valid\<close> (\<^verbatim>\<open>internal/util.hpp\<close>) at an accumulator\<close>
  "check_valid acc = (if \<not> valid acc then Some finalized_accumulator else None)"

definition cov_acc_reset :: "cov_acc \<Rightarrow> cov_acc" where
  "cov_acc_reset acc =
     (let cur = bundle_reset (current acc)
      in if valid acc then Cov_acc (map_option cov_data_reset (store acc)) cur (uplevel acc)
         else Cov_acc (Some (new_cov_data (bundle_size cur))) cur (uplevel acc))"

fun operator_shl :: "cov_acc \<Rightarrow> computed \<Rightarrow> error option \<times> cov_acc"
  and add_bundle ::
    "cov_data option \<Rightarrow> bundle_buffer \<Rightarrow> cov_acc option \<Rightarrow> error option \<times> cov_acc"
where
  "operator_shl (Cov_acc st cur up) source =
     (case check_valid (Cov_acc st cur up) of
        Some e \<Rightarrow> (Some e, Cov_acc st cur up)
      | None \<Rightarrow>
          (case add_to source (bundle_sum cur) of
             Inl e \<Rightarrow> (Some e, Cov_acc st cur up)
           | Inr s \<Rightarrow>
               (let cur1 = cur\<lparr>bundle_sum := s, bundle_count := bundle_count cur + 1\<rparr>
                in if is_full cur1 then add_bundle st cur1 up
                   else (None, Cov_acc st cur1 up))))"
| "add_bundle st cur up =
     (let cur1 = cur\<lparr>bundle_sum :=
                   map (\<lambda>x. ddiv x (to_double (bundle_count cur))) (bundle_sum cur)\<rparr>;
          st1 = map_option (\<lambda>d. d\<lparr>data := map2 dadd (data d) (bundle_sum cur1)\<rparr>) st;
          st2 = map_option (\<lambda>d. d\<lparr>data2 := map2 dadd (data2 d)
                                         (outer (bundle_sum cur1) (bundle_sum cur1))\<rparr>) st1;
          st3 = map_option (\<lambda>d. d\<lparr>count := count d + 1\<rparr>) st2
      in case up of
           None \<Rightarrow> (None, Cov_acc st3 (bundle_reset cur1) None)
         | Some u \<Rightarrow>
             (case operator_shl u (Eigen_adapter (length (bundle_sum cur1)) 1 (bundle_sum cur1)) of
                (Some e, u') \<Rightarrow> (Some e, Cov_acc st3 cur1 (Some u'))
              | (None, u') \<Rightarrow> (None, Cov_acc st3 (bundle_reset cur1) (Some u'))))"

text \<open>
  \<open>add_bundle st cur up\<close> is \<^verbatim>\<open>cov_acc::add_bundle()\<close> on the accumulator with the members
  \<^verbatim>\<open>store_\<close>, \<^verbatim>\<open>current_\<close> and \<^verbatim>\<open>uplevel_\<close>; it is reached only behind \<^verbatim>\<open>check_valid\<close>,
  where the store is not null. The receiver takes the bundle mean as an Eigen column.
  When the receiver throws, the store already holds the bundle and the pending bundle has
  not been reset.
\<close>

section \<open>The result \<^verbatim>\<open>cov_result\<close>\<close>

record cov_result =
  result_store :: "cov_data option"

definition result_valid :: "cov_result \<Rightarrow> bool" where
  \<comment> \<open>Modelled from the spec: \<^verbatim>\<open>cov_result::valid()\<close> is declared in \<^verbatim>\<open>covariance.hpp\<close>; a
      result is valid until its internal storage is released.\<close>
  "result_valid r \<longleftrightarrow> result_store r \<noteq> None"

definition result :: "cov_acc \<Rightarrow> (error + cov_result) \<times> cov_acc" where
  \<comment> \<open>\<^verbatim>\<open>cov_result result(*store_)\<close> copies the store into a new result\<close>
  "result acc =
     (case check_valid acc of
        Some e \<Rightarrow> (Inl e, acc)
      | None \<Rightarrow>
          (let res = \<lparr>result_store = store acc\<rparr>
           in (Inr (res\<lparr>result_store := map_option convert_to_mean (result_store res)\<rparr>), acc)))"

definition finalize_to :: "cov_acc \<Rightarrow> cov_result \<Rightarrow> error option \<times> cov_acc \<times> cov_result" where
  "finalize_to acc res =
     (case check_valid acc of
        Some e \<Rightarrow> (Some e, acc, res)
      | None \<Rightarrow>
          (let res1 = res\<lparr>result_store := None\<rparr>;
               res2 = res1\<lparr>result_store := store acc\<rparr>;
               acc2 = Cov_acc (result_store res1) (current acc) (uplevel acc)
           in (None, acc2, res2\<lparr>result_store := map_option convert_to_mean (result_store res2)\<rparr>)))"

definition finalize :: "cov_acc \<Rightarrow> (error + cov_result) \<times> cov_acc" where
  "finalize acc =
     (case finalize_to acc \<lparr>result_store = None\<rparr> of
        (Some e, acc', res) \<Rightarrow> (Inl e, acc')
      | (None, acc', res) \<Rightarrow> (Inr res, acc'))"

section \<open>Reduction over MPI (\<^verbatim>\<open>mpi.hpp\<close>, \<^verbatim>\<open>cov_result::reduce\<close>)\<close>

text \<open>
  A reduction is collective: every rank of the communicator runs the same code on its own
  result. The embedding holds the participants in a list, the rank being the position,
  and runs the ranks in lock step, which is what the blocking collective call enforces.

  \<^verbatim>\<open>MPI_Reduce\<close> with \<^verbatim>\<open>MPI_SUM\<close> and \<^verbatim>\<open>MPI_IN_PLACE\<close> on the root is taken by its
  contract in the MPI standard: the root's buffer receives the element-wise sum of the
  buffers of all ranks and no other buffer changes. The standard requires the same
  element count on every rank; a call that breaks this, or that names a root outside the
  communicator, is erroneous and is reported as \<open>failed_operation\<close>.
\<close>

record mpi_reducer =
  reducer_root :: nat

record reducer_setup =
  setup_pos :: nat
  setup_count :: nat
  have_result :: bool

definition am_root :: "mpi_reducer \<Rightarrow> nat \<Rightarrow> bool" where
  "am_root r rank \<longleftrightarrow> rank = reducer_root r"

definition get_setup :: "mpi_reducer \<Rightarrow> nat \<Rightarrow> nat \<Rightarrow> reducer_setup" where
  \<comment> \<open>on the rank \<open>rank\<close> of a communicator with \<open>nranks\<close> ranks\<close>
  "get_setup r nranks rank =
     \<lparr>setup_pos = rank, setup_count = nranks, have_result = am_root r rank\<rparr>"

definition mpi_sum :: "('a \<Rightarrow> 'a \<Rightarrow> 'a) \<Rightarrow> 'a list list \<Rightarrow> 'a list" where
  "mpi_sum add bufs = (case bufs of [] \<Rightarrow> [] | b # bs \<Rightarrow> foldl (map2 add) b bs)"

definition inplace_reduce ::
  "mpi_reducer \<Rightarrow> ('a \<Rightarrow> 'a \<Rightarrow> 'a) \<Rightarrow> 'a list list \<Rightarrow> error + 'a list list" where
  \<comment> \<open>\<open>bufs\<close> holds the buffer that each rank passes; the result holds them after the call\<close>
  "inplace_reduce r add bufs =
     (if list_all (\<lambda>b. length b = 0) bufs then Inr bufs
      else if \<not> list_all (\<lambda>b. length b = length (hd bufs)) bufs \<or> length bufs \<le> reducer_root r
        then Inl failed_operation
      else Inr (bufs[reducer_root r := mpi_sum add bufs]))"

definition commit :: "mpi_reducer \<Rightarrow> cov_data list \<Rightarrow> cov_data list" where
  \<comment> \<open>\<^verbatim>\<open>void commit() const { }\<close>, seen from the stores of all ranks\<close>
  "commit r ds = ds"

definition pre_commit :: "mpi_reducer \<Rightarrow> cov_data list \<Rightarrow> error + cov_data list" where
  \<comment> \<open>the branch \<^verbatim>\<open>if (pre_commit)\<close> of \<^verbatim>\<open>cov_result::reduce\<close> on every rank\<close>
  "pre_commit r ds =
     (let ds1 = map convert_to_sum ds
      in case inplace_reduce r dadd (map data ds1) of
           Inl e \<Rightarrow> Inl e
         | Inr b1 \<Rightarrow>
             (case inplace_reduce r dadd (map data2 ds1) of
                Inl e \<Rightarrow> Inl e
              | Inr b2 \<Rightarrow>
                  (case inplace_reduce r (+) (map (\<lambda>d. [count d]) ds1) of
                     Inl e \<Rightarrow> Inl e
                   | Inr b3 \<Rightarrow>
                       Inr (map (\<lambda>(d, x, y, z). d\<lparr>data := x, data2 := y,
                                         count := (case z of [] \<Rightarrow> count d | c # _ \<Rightarrow> c)\<rparr>)
                              (zip ds1 (zip b1 (zip b2 b3)))))))"

definition post_commit :: "mpi_reducer \<Rightarrow> nat \<Rightarrow> nat \<Rightarrow> cov_data \<Rightarrow> cov_result" where
  \<comment> \<open>the branch \<^verbatim>\<open>if (post_commit)\<close> on the rank \<open>rank\<close>\<close>
  "post_commit r nranks rank d =
     (let setup = get_setup r nranks rank
      in if have_result setup then \<lparr>result_store = Some (convert_to_mean d)\<rparr>
         else \<lparr>result_store = None\<rparr>)"

definition cov_result_reduce ::
  "mpi_reducer \<Rightarrow> bool \<Rightarrow> bool \<Rightarrow> cov_result list \<Rightarrow> error + cov_result list" where
  "cov_result_reduce r pre post rs =
     (case those (map result_store rs) of
        None \<Rightarrow> Inl finalized_accumulator
      | Some ds \<Rightarrow>
          (case (if pre then pre_commit r ds else Inr ds) of
             Inl e \<Rightarrow> Inl e
           | Inr ds1 \<Rightarrow>
               (let ds2 = (if pre \<and> post then commit r ds1 else ds1)
                in Inr (if post
                        then map (\<lambda>(rank, d). post_commit r (length ds2) rank d)
                               (zip [0..<length ds2] ds2)
                        else map (\<lambda>d. \<lparr>result_store = Some d\<rparr>) ds2))))"

definition reduce :: "mpi_reducer \<Rightarrow> cov_result list \<Rightarrow> error + cov_result list" where
  \<comment> \<open>Modelled from the spec: the one-argument \<^verbatim>\<open>reduce(r)\<close> is declared in
      \<^verbatim>\<open>covariance.hpp\<close>; it runs all three phases, as \<^verbatim>\<open>autocorr_result::reduce\<close> does.\<close>
  "reduce r rs = cov_result_reduce r True True rs"

section \<open>Level lookup of the binning result (\<^verbatim>\<open>autocorr.hpp\<close>)\<close>

text \<open>
  Modelled from the spec: \<^verbatim>\<open>autocorr.hpp\<close> declares \<^verbatim>\<open>autocorr_result::find_level\<close>, its
  body and the level type \<^verbatim>\<open>var_result\<close> are not among the sources. A level is
  represented by its sample count. Level \<open>i\<close> bins \<open>batch_size * granularity ^ i\<close> samples,
  so the coarsest level is the one with the largest index. The spec describes the lookup
  as a scan over the level sample counts that returns the coarsest level index whose count
  is at least \<open>min_samples\<close>, or fails with \<open>OutOfRange\<close> if none qualifies.
\<close>

record level_result =
  level_count :: size_t

record autocorr_result =
  level :: "level_result list"

definition nlevel :: "autocorr_result \<Rightarrow> nat" where
  "nlevel r = length (level r)"

definition default_min_samples :: size_t where
  "default_min_samples = 256"

fun find_level_scan :: "nat \<Rightarrow> level_result list \<Rightarrow> size_t \<Rightarrow> error + nat" where
  \<comment> \<open>Modelled from the spec: the scan, from the coarsest of the first \<open>i\<close> levels down.\<close>
  "find_level_scan 0 ls min_samples = Inl out_of_range"
| "find_level_scan (Suc i) ls min_samples =
     (if min_samples \<le> level_count (ls ! i) then Inr i
      else find_level_scan i ls min_samples)"

definition find_level :: "autocorr_result \<Rightarrow> size_t \<Rightarrow> error + nat" where
  \<comment> \<open>Modelled from the spec: \<^verbatim>\<open>find_level(min_samples)\<close>.\<close>
  "find_level r min_samples = find_level_scan (nlevel r) (level r) min_samples"

section \<open>Variance accumulator and binning engine (\<^verbatim>\<open>autocorr.hpp\<close>)\<close>

text \<open>
  Modelled from the spec: the variance accumulator \<^verbatim>\<open>var_acc\<close> (\<^verbatim>\<open>variance.hpp\<close>) is not
  among the sources, and of the binning engine \<^verbatim>\<open>autocorr_acc\<close> only the class declaration
  in \<^verbatim>\<open>autocorr.hpp\<close> is: its members and \<^verbatim>\<open>valid()\<close> are read from there, the bodies of
  its operations are not among the sources. The definitions of this section follow the
  spec's words.

  The accumulator core holds a count, a running sum and a running sum of squares of length
  \<open>size\<close>, zero on construction. \<open>add\<close> requires a sample of that size, adds it to the
  running sum, its squares to the sum of squares, and increments the count. The mean form
  is \<open>mean = sum / count\<close> and \<open>variance = (sum of squares - count * mean\<^sup>2) / (count - 1)\<close>.
  \<open>result\<close> converts a snapshot and leaves the accumulator; \<open>finalize\<close> moves the storage
  into the result, converts it there, and leaves the accumulator invalid. Every one of
  them fails with \<open>FinalizedAccumulator\<close> on an invalid accumulator.
\<close>

record var_data =
  var_sum :: "double list"
  var_sum2 :: "double list"
  var_count :: size_t

definition new_var_data :: "nat \<Rightarrow> var_data" where
  \<comment> \<open>Modelled from the spec: \<open>construct(size)\<close>, zero-filled storage of length \<open>size\<close>.\<close>
  "new_var_data n =
     \<lparr>var_sum = replicate n (Fin 0), var_sum2 = replicate n (Fin 0), var_count = 0\<rparr>"

definition var_to_mean_form :: "var_data \<Rightarrow> var_data" where
  \<comment> \<open>Modelled from the spec: \<open>to_mean_form()\<close> of the variance store.\<close>
  "var_to_mean_form d =
     (let c = to_double (var_count d);
          mean = map (\<lambda>x. ddiv x c) (var_sum d)
      in d\<lparr>var_sum := mean,
           var_sum2 := map (\<lambda>x. ddiv x (to_double (var_count d - 1)))
                         (map2 dsub (var_sum2 d) (map (\<lambda>m. dscale c (dmul m m)) mean))\<rparr>)"

record var_acc =
  var_store :: "var_data option"
  var_size :: nat

record var_result =
  var_result_store :: "var_data option"

definition new_var_acc :: "nat \<Rightarrow> var_acc" where
  \<comment> \<open>Modelled from the spec: a variance accumulator created empty with a fixed size.\<close>
  "new_var_acc n = \<lparr>var_store = Some (new_var_data n), var_size = n\<rparr>"

definition var_valid :: "var_acc \<Rightarrow> bool" where
  \<comment> \<open>Modelled from the spec: valid until the internal storage is transferred out.\<close>
  "var_valid acc \<longleftrightarrow> var_store acc \<noteq> None"

definition var_add :: "var_acc \<Rightarrow> computed \<Rightarrow> error option \<times> var_acc" where
  \<comment> \<open>Modelled from the spec: \<open>add(sample)\<close> of the variance accumulator.\<close>
  "var_add acc sample =
     (if \<not> var_valid acc then (Some finalized_accumulator, acc)
      else if computed_size sample \<noteq> var_size acc then (Some size_mismatch, acc)
      else (None, acc\<lparr>var_store := map_option
              (\<lambda>d. d\<lparr>var_sum := map2 dadd (var_sum d) (coefficients sample),
                     var_sum2 := map2 dadd (var_sum2 d)
                                   (map (\<lambda>x. dmul x x) (coefficients sample)),
                     var_count := var_count d + 1\<rparr>)
              (var_store acc)\<rparr>))"

definition var_acc_result :: "var_acc \<Rightarrow> (error + var_result) \<times> var_acc" where
  \<comment> \<open>Modelled from the spec: \<open>result()\<close> of the variance accumulator.\<close>
  "var_acc_result acc =
     (if \<not> var_valid acc then (Inl finalized_accumulator, acc)
      else (Inr \<lparr>var_result_store = map_option var_to_mean_form (var_store acc)\<rparr>, acc))"

definition var_finalize :: "var_acc \<Rightarrow> (error + var_result) \<times> var_acc" where
  \<comment> \<open>Modelled from the spec: \<open>finalize()\<close> of the variance accumulator.\<close>
  "var_finalize acc =
     (if \<not> var_valid acc then (Inl finalized_accumulator, acc)
      else (Inr \<lparr>var_result_store = map_option var_to_mean_form (var_store acc)\<rparr>,
            acc\<lparr>var_store := None\<rparr>))"

text \<open>
  Modelled from the spec: a level of the binning hierarchy owns its batch size, the number
  of raw samples it bins together (\<open>batch_size * granularity ^ i\<close> at level \<open>i\<close>), a bundle
  buffer with the partial sum of the samples that do not yet complete a bundle, and a
  variance accumulator over the means of its completed bundles. The receiver of a level is
  the next level of the sequence. Level 0 receives the raw samples and completes a bundle
  after \<open>batch_size\<close> of them; a coarser level receives the bundle means of the level below
  and completes a bundle after \<open>granularity\<close> of them. A completed bundle's mean is folded
  into the level's own variance accumulator and forwarded as one sample to the next level,
  which is appended first when no coarser level exists yet.

  The engine has the members that \<^verbatim>\<open>autocorr.hpp\<close> declares and the spec describes: size,
  batch size, granularity, the count of raw samples and the sequence of levels. The header
  also declares \<^verbatim>\<open>nextlevel_\<close>; the spec gives it no role and it is left out. The engine is
  valid while it has a level, as \<^verbatim>\<open>autocorr_acc::valid()\<close> says. Its result holds the
  variance result of every level; the lookup of the section above keeps the count of each.

  With a granularity below two a forwarded sample completes a bundle at every new level,
  and the cascade does not end: it is a partial function, \<open>None\<close> standing for a call
  that does not return.
\<close>

record level_acc =
  level_batch_size :: size_t
  level_bundle :: bundle_buffer
  level_var :: var_acc

definition new_level :: "nat \<Rightarrow> size_t \<Rightarrow> size_t \<Rightarrow> level_acc" where
  \<comment> \<open>Modelled from the spec: an empty level for samples of size \<open>n\<close> that bins \<open>batch\<close> raw
      samples and completes a bundle after \<open>target\<close> received samples.\<close>
  "new_level n batch target =
     \<lparr>level_batch_size = batch, level_bundle = new_bundle n target, level_var = new_var_acc n\<rparr>"

record autocorr_acc =
  acc_size :: nat
  acc_batch_size :: size_t
  acc_count :: size_t
  acc_granularity :: size_t
  acc_level :: "level_acc list"

definition autocorr_valid :: "autocorr_acc \<Rightarrow> bool" where
  \<comment> \<open>\<^verbatim>\<open>bool valid() const { return !level_.empty(); }\<close>\<close>
  "autocorr_valid acc \<longleftrightarrow> acc_level acc \<noteq> []"

definition new_autocorr_acc :: "nat \<Rightarrow> size_t \<Rightarrow> size_t \<Rightarrow> autocorr_acc" where
  \<comment> \<open>Modelled from the spec: the engine created empty with a fixed size, batch size and
      granularity; it starts with level 0.\<close>
  "new_autocorr_acc n batch g =
     \<lparr>acc_size = n, acc_batch_size = batch, acc_count = 0, acc_granularity = g,
      acc_level = [new_level n batch batch]\<rparr>"

partial_function (option) cascade ::
  "nat \<Rightarrow> size_t \<Rightarrow> level_acc list \<Rightarrow> nat \<Rightarrow> double list
     \<Rightarrow> (error option \<times> level_acc list) option"
where [code]:
  \<comment> \<open>Modelled from the spec: the sample \<open>x\<close> enters level \<open>i\<close>; completions cascade upward.\<close>
  "cascade n g ls i x =
     (if length ls \<le> i then Some (None, ls)
      else
        (let l = ls ! i;
             b = (level_bundle l)\<lparr>bundle_sum := map2 dadd (bundle_sum (level_bundle l)) x,
                                   bundle_count := bundle_count (level_bundle l) + 1\<rparr>
         in if \<not> is_full b then Some (None, ls[i := l\<lparr>level_bundle := b\<rparr>])
            else
              (let m = map (\<lambda>s. ddiv s (to_double (bundle_count b))) (bundle_sum b);
                   added = var_add (level_var l) (Vector_adapter m)
               in case fst added of
                    Some e \<Rightarrow>
                      Some (Some e, ls[i := l\<lparr>level_bundle := b, level_var := snd added\<rparr>])
                  | None \<Rightarrow>
                      (let ls1 = ls[i := l\<lparr>level_bundle := bundle_reset b,
                                           level_var := snd added\<rparr>];
                           ls2 = (if Suc i = length ls1
                                  then ls1 @ [new_level n (level_batch_size l * g) g]
                                  else ls1)
                       in cascade n g ls2 (Suc i) m))))"

definition autocorr_add ::
  "autocorr_acc \<Rightarrow> computed \<Rightarrow> (error option \<times> autocorr_acc) option" where
  \<comment> \<open>Modelled from the spec: \<open>add(sample)\<close> of the engine feeds the raw sample into
      level 0.\<close>
  "autocorr_add acc sample =
     (if \<not> autocorr_valid acc then Some (Some finalized_accumulator, acc)
      else if computed_size sample \<noteq> acc_size acc then Some (Some size_mismatch, acc)
      else
        (case cascade (acc_size acc) (acc_granularity acc) (acc_level acc) 0
                (coefficients sample) of
           None \<Rightarrow> None
         | Some (e, ls) \<Rightarrow>
             Some (e, acc\<lparr>acc_count := acc_count acc + 1, acc_level := ls\<rparr>)))"

fun add_all ::
  "autocorr_acc \<Rightarrow> computed list \<Rightarrow> (error option \<times> autocorr_acc) option" where
  \<comment> \<open>a stream of samples added one after the other, up to the first failure\<close>
  "add_all acc [] = Some (None, acc)"
| "add_all acc (x # xs) =
     (case autocorr_add acc x of
        None \<Rightarrow> None
      | Some (Some e, a) \<Rightarrow> Some (Some e, a)
      | Some (None, a) \<Rightarrow> add_all a xs)"

definition level_result_of :: "level_acc \<Rightarrow> var_result" where
  \<comment> \<open>Modelled from the spec: the variance result of a level, in mean form.\<close>
  "level_result_of l =
     \<lparr>var_result_store = map_option var_to_mean_form (var_store (level_var l))\<rparr>"

definition autocorr_acc_result ::
  "autocorr_acc \<Rightarrow> (error + var_result list) \<times> autocorr_acc" where
  \<comment> \<open>Modelled from the spec: \<open>result()\<close> of the engine.\<close>
  "autocorr_acc_result acc =
     (if \<not> autocorr_valid acc then (Inl finalized_accumulator, acc)
      else (Inr (map level_result_of (acc_level acc)), acc))"

definition autocorr_finalize ::
  "autocorr_acc \<Rightarrow> (error + var_result list) \<times> autocorr_acc" where
  \<comment> \<open>Modelled from the spec: \<open>finalize()\<close> of the engine; the levels move into the result.\<close>
  "autocorr_finalize acc =
     (if \<not> autocorr_valid acc then (Inl finalized_accumulator, acc)
      else (Inr (map level_result_of (acc_level acc)), acc\<lparr>acc_level := []\<rparr>))"

section \<open>Arithmetic of counts and buffers\<close>

lemma to_double_pred: "1 \<le> c \<Longrightarrow> to_double (c - 1) = to_double c - 1"
proof -
  assume "1 \<le> c"
  then have nz: "c \<noteq> 0" by auto
  then have "unat (c - 1) = unat c - 1" by (rule unat_minus_one)
  moreover have "0 < unat c" using nz by (simp add: unat_gt_0)
  ultimately show ?thesis by (simp add: to_double_def)
qed

lemma to_double_gt1: "1 < c \<Longrightarrow> 1 < to_double c"
proof -
  assume "1 < c"
  then have "1 < unat c" by (simp add: word_less_nat_alt)
  then have "real 1 < real (unat c)" by (simp only: of_nat_less_iff)
  then show ?thesis by (simp only: to_double_def of_nat_1)
qed

lemma length_outer: "length (outer x y) = length x * length y"
  by (induction y) (simp_all add: outer_def)

lemma outer_Cons: "outer x (y # ys) = map (\<lambda>xi. dmul xi y) x @ outer x ys"
  by (simp add: outer_def)

lemma outer_nth:
  "i < length x \<Longrightarrow> j < length y \<Longrightarrow> outer x y ! (i + length x * j) = dmul (x ! i) (y ! j)"
proof (induction y arbitrary: j)
  case Nil
  then show ?case by simp
next
  case (Cons a y)
  show ?case
  proof (cases j)
    case 0
    with Cons.prems show ?thesis by (simp add: outer_Cons nth_append)
  next
    case (Suc k)
    with Cons.prems have k: "k < length y" by simp
    have "outer x (a # y) ! (i + length x * j) = outer x y ! (i + length x * k)"
      using Suc Cons.prems by (simp add: outer_Cons nth_append)
    with Cons.IH [OF Cons.prems(1) k] Suc show ?thesis by simp
  qed
qed

lemma index_bound: "i < n \<Longrightarrow> j < n \<Longrightarrow> i + n * j < n * (n::nat)"
proof -
  assume a: "i < n" "j < n"
  then have "i + n * j < n + n * j" by simp
  also have "\<dots> = n * Suc j" by simp
  also have "\<dots> \<le> n * n" using a by (intro mult_le_mono2) simp
  finally show ?thesis .
qed

lemma ddiv_finite: "d \<noteq> 0 \<Longrightarrow> is_finite x \<Longrightarrow> is_finite (ddiv x d)"
  by (cases x) simp_all

lemma dmul_finite: "is_finite x \<Longrightarrow> is_finite y \<Longrightarrow> is_finite (dmul x y)"
  by (cases x; cases y) simp_all

lemma outer_finite:
  "\<forall>x \<in> set a. is_finite x \<Longrightarrow> \<forall>y \<in> set b. is_finite y \<Longrightarrow>
   \<forall>z \<in> set (outer a b). is_finite z"
  by (auto simp: outer_def dmul_finite)

lemma scale_div_cancel: "c \<noteq> 0 \<Longrightarrow> is_finite x \<Longrightarrow> dscale c (ddiv x c) = x"
  by (cases x) simp_all

lemma round_trip_entry:
  "c \<noteq> 0 \<Longrightarrow> c - 1 \<noteq> 0 \<Longrightarrow> is_finite y \<Longrightarrow> is_finite p \<Longrightarrow>
   dadd (dscale (c - 1) (ddiv (dsub y (dscale c p)) (c - 1))) (dscale c p) = y"
  by (cases y; cases p) simp_all

lemma round_trip_data2:
  assumes "c \<noteq> 0" "c - 1 \<noteq> 0" "length p = length q"
    and "\<forall>x \<in> set p. is_finite x" "\<forall>x \<in> set q. is_finite x"
  shows "map2 dadd (map (dscale (c - 1)) (map (\<lambda>x. ddiv x (c - 1))
            (map2 dsub q (map (dscale c) p))))
           (map (dscale c) p) = q"
proof (rule nth_equalityI)
  show "length (map2 dadd (map (dscale (c - 1)) (map (\<lambda>x. ddiv x (c - 1))
            (map2 dsub q (map (dscale c) p)))) (map (dscale c) p)) = length q"
    using assms(3) by simp
next
  fix i
  assume "i < length (map2 dadd (map (dscale (c - 1)) (map (\<lambda>x. ddiv x (c - 1))
            (map2 dsub q (map (dscale c) p)))) (map (dscale c) p))"
  then have i: "i < length q" "i < length p" using assms(3) by simp_all
  then have "is_finite (q ! i)" "is_finite (p ! i)" using assms(4,5) by simp_all
  then show "map2 dadd (map (dscale (c - 1)) (map (\<lambda>x. ddiv x (c - 1))
            (map2 dsub q (map (dscale c) p)))) (map (dscale c) p) ! i = q ! i"
    using i assms(1,2) by (simp add: round_trip_entry)
qed

section \<open>Conversion between sum form and mean form\<close>

text \<open>
  Claim C1. For a data store in sum form with more than one sample and finite sums,
  \<^verbatim>\<open>convert_to_mean\<close> leaves the count, turns every sum \<open>s\<^sub>i\<close> into the mean
  \<open>s\<^sub>i / count\<close>, and turns the entry \<open>(i, j)\<close> of the sum of outer products into the
  bias-corrected covariance \<open>(s2\<^sub>i\<^sub>j - count * mean\<^sub>i * mean\<^sub>j) / (count - 1)\<close>.
\<close>

theorem convert_to_mean_formula:
  assumes c: "1 < count d"
    and s: "data d = map Fin s" and s2: "data2 d = map Fin s2"
    and wf: "length s2 = length s * length s"
  shows "count (convert_to_mean d) = count d \<and>
         data (convert_to_mean d) = map (\<lambda>x. Fin (x / to_double (count d))) s \<and>
         length (data2 (convert_to_mean d)) = length s * length s \<and>
         (\<forall>i < length s. \<forall>j < length s.
            data2 (convert_to_mean d) ! (i + length s * j) =
              Fin ((s2 ! (i + length s * j)
                     - to_double (count d)
                       * ((s ! i / to_double (count d)) * (s ! j / to_double (count d))))
                   / (to_double (count d) - 1)))"
proof -
  let ?c = "to_double (count d)"
  let ?m = "map (\<lambda>x. ddiv x ?c) (data d)"
  have c0: "?c \<noteq> 0" and c1: "?c - 1 \<noteq> 0" using to_double_gt1 [OF c] by simp_all
  have pred: "to_double (count d - 1) = ?c - 1" using c by (intro to_double_pred) simp
  have m: "?m = map (\<lambda>x. Fin (x / ?c)) s" using c0 by (simp add: s)
  have d2: "data2 (convert_to_mean d) =
      map (\<lambda>x. ddiv x (?c - 1)) (map2 dsub (data2 d) (map (dscale ?c) (outer ?m ?m)))"
    by (simp add: convert_to_mean_def Let_def pred)
  have len: "length (data2 (convert_to_mean d)) = length s * length s"
    by (simp add: d2 length_outer s s2 wf)
  have entry: "data2 (convert_to_mean d) ! (i + length s * j) =
              Fin ((s2 ! (i + length s * j) - ?c * ((s ! i / ?c) * (s ! j / ?c))) / (?c - 1))"
    if ij: "i < length s" "j < length s" for i j
  proof -
    have k: "i + length s * j < length s * length s" using ij by (rule index_bound)
    have o: "outer ?m ?m ! (i + length s * j) = Fin ((s ! i / ?c) * (s ! j / ?c))"
      using outer_nth [of i ?m j ?m] ij by (simp add: m)
    show ?thesis using k o c1 by (simp add: d2 length_outer s s2 wf)
  qed
  show ?thesis using entry len m by (simp add: convert_to_mean_def Let_def s)
qed

theorem convert_to_mean_formula_witness:
  "(1 :: size_t) < 2 \<and>
   data (convert_to_mean \<lparr>data = [Fin 4], data2 = [Fin 10], count = 2\<rparr>) = [Fin 2] \<and>
   data2 (convert_to_mean \<lparr>data = [Fin 4], data2 = [Fin 10], count = 2\<rparr>) ! 0 = Fin 2"
proof -
  let ?d = "\<lparr>data = [Fin 4], data2 = [Fin 10], count = 2 :: size_t\<rparr>"
  have h1: "1 < count ?d" by simp
  have h2: "data ?d = map Fin [4]" by simp
  have h3: "data2 ?d = map Fin [10]" by simp
  have h4: "length [10 :: real] = length [4 :: real] * length [4 :: real]" by simp
  show ?thesis
    using convert_to_mean_formula [OF h1 h2 h3 h4] by (simp add: to_double_def)
qed

text \<open>
  Claim C2. For a well-shaped data store in sum form with more than one sample and finite
  entries, \<^verbatim>\<open>convert_to_mean\<close> followed by \<^verbatim>\<open>convert_to_sum\<close> gives back the store:
  over exact arithmetic the round trip is the identity.
\<close>

theorem convert_round_trip:
  assumes c: "1 < count d" and wf: "wf_data d"
    and f1: "\<forall>x \<in> set (data d). is_finite x"
    and f2: "\<forall>x \<in> set (data2 d). is_finite x"
  shows "convert_to_sum (convert_to_mean d) = d"
proof -
  let ?c = "to_double (count d)"
  let ?m = "map (\<lambda>x. ddiv x ?c) (data d)"
  let ?p = "outer ?m ?m"
  have c0: "?c \<noteq> 0" and c1: "?c - 1 \<noteq> 0" using to_double_gt1 [OF c] by simp_all
  have pred: "to_double (count d - 1) = ?c - 1" using c by (intro to_double_pred) simp
  have fm: "\<forall>x \<in> set ?m. is_finite x" using f1 c0 by (simp add: ddiv_finite)
  have fp: "\<forall>x \<in> set ?p. is_finite x" using fm by (intro outer_finite)
  have lp: "length ?p = length (data2 d)" using wf by (simp add: wf_data_def length_outer)
  have restore: "map (dscale ?c) ?m = data d"
    using f1 c0 by (intro nth_equalityI) (simp_all add: scale_div_cancel)
  have mean: "convert_to_mean d =
      d\<lparr>data := ?m,
        data2 := map (\<lambda>x. ddiv x (?c - 1)) (map2 dsub (data2 d) (map (dscale ?c) ?p))\<rparr>"
    by (simp add: convert_to_mean_def Let_def pred)
  have "convert_to_sum (convert_to_mean d) =
      d\<lparr>data := map (dscale ?c) ?m,
        data2 := map2 dadd (map (dscale (?c - 1)) (map (\<lambda>x. ddiv x (?c - 1))
            (map2 dsub (data2 d) (map (dscale ?c) ?p)))) (map (dscale ?c) ?p)\<rparr>"
    unfolding mean by (simp add: convert_to_sum_def Let_def pred)
  also have "\<dots> = d\<lparr>data := data d, data2 := data2 d\<rparr>"
    by (simp only: restore round_trip_data2 [OF c0 c1 lp fp f2])
  finally show ?thesis by simp
qed

theorem convert_round_trip_witness:
  "convert_to_sum (convert_to_mean \<lparr>data = [Fin 4, Fin 6], data2 = [Fin 10, Fin 14, Fin 14, Fin 20],
                                     count = 2\<rparr>) =
   \<lparr>data = [Fin 4, Fin 6], data2 = [Fin 10, Fin 14, Fin 14, Fin 20], count = 2\<rparr>"
  by (rule convert_round_trip) (simp_all add: wf_data_def)

section \<open>Validity of the accumulator\<close>

lemma map_const_replicate: "map (\<lambda>_. c) xs = replicate (length xs) c"
  by (induction xs) simp_all

lemma operator_shl_invalid:
  "\<not> valid acc \<Longrightarrow> operator_shl acc source = (Some finalized_accumulator, acc)"
  by (cases acc) (simp add: valid_def check_valid_def)

lemma result_invalid: "\<not> valid acc \<Longrightarrow> result acc = (Inl finalized_accumulator, acc)"
  by (simp add: check_valid_def result_def)

lemma finalize_invalid: "\<not> valid acc \<Longrightarrow> finalize acc = (Inl finalized_accumulator, acc)"
  by (simp add: check_valid_def finalize_def finalize_to_def)

lemma finalize_valid:
  "store acc = Some d \<Longrightarrow>
   finalize acc = (Inr \<lparr>result_store = Some (convert_to_mean d)\<rparr>,
                   Cov_acc None (current acc) (uplevel acc))"
  by (simp add: finalize_def finalize_to_def check_valid_def valid_def)

lemma result_valid_acc:
  "store acc = Some d \<Longrightarrow> result acc = (Inr \<lparr>result_store = Some (convert_to_mean d)\<rparr>, acc)"
  by (simp add: result_def check_valid_def valid_def)

lemma to_double_eq_0: "to_double c = 0 \<longleftrightarrow> c = 0"
  by (simp only: to_double_def of_nat_eq_0_iff unat_0_iff)

lemma word_gt_1_iff: "1 < c \<longleftrightarrow> c \<noteq> 0 \<and> c \<noteq> 1" for c :: size_t
proof -
  have "1 < c \<longleftrightarrow> 1 < unat c" by (simp add: word_less_nat_alt)
  also have "\<dots> \<longleftrightarrow> unat c \<noteq> 0 \<and> unat c \<noteq> 1" by arith
  also have "\<dots> \<longleftrightarrow> c \<noteq> 0 \<and> c \<noteq> 1"
    by (simp add: word_unat_eq_iff)
  finally show ?thesis .
qed

lemma divisors_nonzero_iff:
  "to_double c \<noteq> 0 \<and> to_double (c - 1) \<noteq> 0 \<longleftrightarrow> 1 < c"
  by (simp add: to_double_eq_0 word_gt_1_iff)

lemma ddiv_zero: "ddiv x 0 = NonFinite"
  by (cases x) simp_all

lemma dsub_NonFinite: "dsub y NonFinite = NonFinite"
  by (cases y) simp_all

lemma outer_NonFinite:
  "\<forall>x \<in> set a. x = NonFinite \<Longrightarrow> \<forall>z \<in> set (outer a b). z = NonFinite"
  by (auto simp: outer_def)

lemma convert_to_mean_count_0:
  assumes "count d = 0"
  shows "(\<forall>x \<in> set (data (convert_to_mean d)). x = NonFinite) \<and>
         (\<forall>x \<in> set (data2 (convert_to_mean d)). x = NonFinite)"
proof -
  let ?m = "map (\<lambda>x. ddiv x (to_double (count d))) (data d)"
  have c: "to_double (count d) = 0" using assms by (simp add: to_double_def)
  have m: "\<forall>x \<in> set ?m. x = NonFinite" by (simp add: c ddiv_zero)
  then have o: "\<forall>z \<in> set (outer ?m ?m). z = NonFinite" by (rule outer_NonFinite)
  have "\<forall>x \<in> set (data2 (convert_to_mean d)). x = NonFinite"
  proof
    fix x assume "x \<in> set (data2 (convert_to_mean d))"
    then obtain y p where "p \<in> set (outer ?m ?m)"
      and x: "x = ddiv (dsub y (dscale (to_double (count d)) p)) (to_double (count d - 1))"
      by (auto simp: convert_to_mean_def Let_def dest!: set_zip_rightD)
    with o have "p = NonFinite" by simp
    with x show "x = NonFinite" by (simp add: dsub_NonFinite)
  qed
  moreover have "data (convert_to_mean d) = ?m" by (simp add: convert_to_mean_def Let_def)
  ultimately show ?thesis using m by simp
qed

lemma convert_to_mean_count_1:
  assumes "count d = 1"
  shows "\<forall>x \<in> set (data2 (convert_to_mean d)). x = NonFinite"
proof -
  have "to_double (count d - 1) = 0" using assms by (simp add: to_double_def)
  then show ?thesis by (auto simp: convert_to_mean_def Let_def ddiv_zero)
qed

text \<open>
  Claim C3, as the code has it. \<^verbatim>\<open>result()\<close> and \<^verbatim>\<open>finalize()\<close> are guarded by
  \<^verbatim>\<open>check_valid\<close> only: on an accumulator that holds a store they return the store
  converted by \<^verbatim>\<open>convert_to_mean\<close>, whatever the count is. The two divisors of the
  conversion, the count and the count minus one as \<^verbatim>\<open>double\<close>, are both different from
  zero exactly when the count exceeds one. At count one every entry of the returned
  covariance is non-finite; at count zero every entry of the returned mean and of the
  returned covariance is.
\<close>

theorem variance_extraction_unguarded:
  assumes "store acc = Some d"
  shows "result acc = (Inr \<lparr>result_store = Some (convert_to_mean d)\<rparr>, acc) \<and>
         fst (finalize acc) = Inr \<lparr>result_store = Some (convert_to_mean d)\<rparr> \<and>
         (to_double (count d) \<noteq> 0 \<and> to_double (count d - 1) \<noteq> 0 \<longleftrightarrow> 1 < count d) \<and>
         (count d = 1 \<longrightarrow> (\<forall>x \<in> set (data2 (convert_to_mean d)). x = NonFinite)) \<and>
         (count d = 0 \<longrightarrow> (\<forall>x \<in> set (data (convert_to_mean d)). x = NonFinite) \<and>
                          (\<forall>x \<in> set (data2 (convert_to_mean d)). x = NonFinite))"
  using assms convert_to_mean_count_0 [of d] convert_to_mean_count_1 [of d]
  by (simp add: result_valid_acc finalize_valid divisors_nonzero_iff)

theorem variance_extraction_unguarded_witness:
  "store (Cov_acc (Some \<lparr>data = [Fin 3], data2 = [Fin 9], count = 1\<rparr>) (new_bundle 1 1) None) =
     Some \<lparr>data = [Fin 3], data2 = [Fin 9], count = 1\<rparr> \<and>
   fst (result (Cov_acc (Some \<lparr>data = [Fin 3], data2 = [Fin 9], count = 1\<rparr>) (new_bundle 1 1) None)) =
     Inr \<lparr>result_store = Some (convert_to_mean \<lparr>data = [Fin 3], data2 = [Fin 9], count = 1\<rparr>)\<rparr> \<and>
   data2 (convert_to_mean \<lparr>data = [Fin 3], data2 = [Fin 9], count = 1\<rparr>) = [NonFinite]"
proof -
  let ?d = "\<lparr>data = [Fin 3], data2 = [Fin 9], count = 1 :: size_t\<rparr>"
  let ?acc = "Cov_acc (Some ?d) (new_bundle 1 1) None"
  have h: "store ?acc = Some ?d" by simp
  note t = variance_extraction_unguarded [OF h]
  have c: "count ?d = 1" by simp
  from t c have all: "\<forall>x \<in> set (data2 (convert_to_mean ?d)). x = NonFinite" by blast
  have "length (data2 (convert_to_mean ?d)) = 1"
    by (simp add: convert_to_mean_def Let_def outer_def)
  then obtain x where x: "data2 (convert_to_mean ?d) = [x]"
    by (cases "data2 (convert_to_mean ?d)") auto
  with all have "x = NonFinite" by simp
  with x t h show ?thesis by simp
qed

text \<open>
  The extraction at one sample and at no sample. After a single sample the accumulator is
  valid with count one; both operations return a result whose mean is the sample and whose
  covariance is not finite, the division by the count minus one having run with divisor
  zero. On a fresh accumulator the division by the count itself runs with divisor zero.
\<close>

theorem variance_extraction_counterexample:
  "valid (snd (operator_shl (new_cov_acc 1 1) (Value_adapter (Fin 3)))) \<and>
   fst (result (snd (operator_shl (new_cov_acc 1 1) (Value_adapter (Fin 3))))) =
     Inr \<lparr>result_store = Some \<lparr>data = [Fin 3], data2 = [NonFinite], count = 1\<rparr>\<rparr> \<and>
   fst (finalize (snd (operator_shl (new_cov_acc 1 1) (Value_adapter (Fin 3))))) =
     Inr \<lparr>result_store = Some \<lparr>data = [Fin 3], data2 = [NonFinite], count = 1\<rparr>\<rparr> \<and>
   to_double (1 - 1) = 0 \<and>
   valid (new_cov_acc 1 1) \<and>
   fst (result (new_cov_acc 1 1)) =
     Inr \<lparr>result_store = Some \<lparr>data = [NonFinite], data2 = [NonFinite], count = 0\<rparr>\<rparr> \<and>
   to_double 0 = 0"
  by (simp add: new_cov_acc_def new_cov_data_def cov_data_reset_def new_bundle_def bundle_reset_def
      is_full_def result_def finalize_def finalize_to_def convert_to_mean_def outer_def
      to_double_def valid_def check_valid_def Let_def)


section \<open>Finalized accumulators\<close>

text \<open>
  The scenario of the spec on the binning engine: the samples 1, 3, 5, 7 of size one with
  batch size one and granularity two give mean 4 at count 4 on level 0, and the bundle
  means 2 and 6, hence mean 4 at count 2, on level 1.
\<close>

lemma binning_scenario:
  "map_option (\<lambda>(e, a). (e, map level_result_of (take 2 (acc_level a))))
     (add_all (new_autocorr_acc 1 1 2) (map (\<lambda>x. Value_adapter (Fin x)) [1, 3, 5, 7])) =
   Some (None,
     [\<lparr>var_result_store = Some \<lparr>var_sum = [Fin 4], var_sum2 = [Fin (20 / 3)], var_count = 4\<rparr>\<rparr>,
      \<lparr>var_result_store = Some \<lparr>var_sum = [Fin 4], var_sum2 = [Fin 8], var_count = 2\<rparr>\<rparr>])"
  by code_simp

lemma var_finalize_valid:
  "var_valid v \<Longrightarrow>
   var_finalize v = (Inr \<lparr>var_result_store = map_option var_to_mean_form (var_store v)\<rparr>,
                     v\<lparr>var_store := None\<rparr>)"
  by (simp add: var_finalize_def)

lemma var_add_invalid: "\<not> var_valid v \<Longrightarrow> var_add v sample = (Some finalized_accumulator, v)"
  by (simp add: var_add_def)

lemma var_acc_result_invalid: "\<not> var_valid v \<Longrightarrow> var_acc_result v = (Inl finalized_accumulator, v)"
  by (simp add: var_acc_result_def)

lemma var_finalize_invalid: "\<not> var_valid v \<Longrightarrow> var_finalize v = (Inl finalized_accumulator, v)"
  by (simp add: var_finalize_def)

lemma autocorr_finalize_valid:
  "autocorr_valid a \<Longrightarrow>
   autocorr_finalize a = (Inr (map level_result_of (acc_level a)), a\<lparr>acc_level := []\<rparr>)"
  by (simp add: autocorr_finalize_def)

lemma autocorr_add_invalid:
  "\<not> autocorr_valid a \<Longrightarrow> autocorr_add a sample = Some (Some finalized_accumulator, a)"
  by (simp add: autocorr_add_def)

lemma autocorr_acc_result_invalid:
  "\<not> autocorr_valid a \<Longrightarrow> autocorr_acc_result a = (Inl finalized_accumulator, a)"
  by (simp add: autocorr_acc_result_def)

lemma autocorr_finalize_invalid:
  "\<not> autocorr_valid a \<Longrightarrow> autocorr_finalize a = (Inl finalized_accumulator, a)"
  by (simp add: autocorr_finalize_def)

lemma cov_finalize_invalidates:
  assumes "valid acc"
  shows "\<exists>r acc'. finalize acc = (Inr r, acc') \<and> \<not> valid acc' \<and>
           (\<forall>source. operator_shl acc' source = (Some finalized_accumulator, acc')) \<and>
           result acc' = (Inl finalized_accumulator, acc') \<and>
           finalize acc' = (Inl finalized_accumulator, acc')"
proof -
  from assms obtain d where d: "store acc = Some d" by (auto simp: valid_def)
  let ?acc' = "Cov_acc None (current acc) (uplevel acc)"
  have inv: "\<not> valid ?acc'" by (simp add: valid_def)
  have "finalize acc = (Inr \<lparr>result_store = Some (convert_to_mean d)\<rparr>, ?acc')"
    using d by (rule finalize_valid)
  moreover have "\<forall>source. operator_shl ?acc' source = (Some finalized_accumulator, ?acc')"
    using operator_shl_invalid [OF inv] by blast
  moreover have "result ?acc' = (Inl finalized_accumulator, ?acc')"
    using inv by (rule result_invalid)
  moreover have "finalize ?acc' = (Inl finalized_accumulator, ?acc')"
    using inv by (rule finalize_invalid)
  ultimately show ?thesis using inv by blast
qed

lemma var_finalize_invalidates:
  assumes "var_valid v"
  shows "\<exists>r v'. var_finalize v = (Inr r, v') \<and> \<not> var_valid v' \<and>
           (\<forall>sample. var_add v' sample = (Some finalized_accumulator, v')) \<and>
           var_acc_result v' = (Inl finalized_accumulator, v') \<and>
           var_finalize v' = (Inl finalized_accumulator, v')"
proof -
  let ?v' = "v\<lparr>var_store := None\<rparr>"
  have inv: "\<not> var_valid ?v'" by (simp add: var_valid_def)
  have "\<forall>sample. var_add ?v' sample = (Some finalized_accumulator, ?v')"
    using var_add_invalid [OF inv] by blast
  with var_finalize_valid [OF assms] var_acc_result_invalid [OF inv] var_finalize_invalid [OF inv] inv
  show ?thesis by blast
qed

lemma autocorr_finalize_invalidates:
  assumes "autocorr_valid a"
  shows "\<exists>r a'. autocorr_finalize a = (Inr r, a') \<and> \<not> autocorr_valid a' \<and>
           (\<forall>sample. autocorr_add a' sample = Some (Some finalized_accumulator, a')) \<and>
           autocorr_acc_result a' = (Inl finalized_accumulator, a') \<and>
           autocorr_finalize a' = (Inl finalized_accumulator, a')"
proof -
  let ?a' = "a\<lparr>acc_level := []\<rparr>"
  have inv: "\<not> autocorr_valid ?a'" by (simp add: autocorr_valid_def)
  have "\<forall>sample. autocorr_add ?a' sample = Some (Some finalized_accumulator, ?a')"
    using autocorr_add_invalid [OF inv] by blast
  with autocorr_finalize_valid [OF assms] autocorr_acc_result_invalid [OF inv]
    autocorr_finalize_invalid [OF inv] inv
  show ?thesis by blast
qed

text \<open>
  Claim C6, for the three accumulators: the covariance accumulator of the source, the
  variance accumulator and the binning engine. \<open>finalize\<close> on a valid accumulator succeeds
  and leaves it invalid; from then on adding a sample, \<open>result\<close> and \<open>finalize\<close> each fail
  with \<open>finalized_accumulator\<close> and leave the accumulator as it was.
\<close>

theorem finalize_invalidates:
  "(valid acc \<longrightarrow>
      (\<exists>r acc'. finalize acc = (Inr r, acc') \<and> \<not> valid acc' \<and>
         (\<forall>source. operator_shl acc' source = (Some finalized_accumulator, acc')) \<and>
         result acc' = (Inl finalized_accumulator, acc') \<and>
         finalize acc' = (Inl finalized_accumulator, acc'))) \<and>
   (var_valid v \<longrightarrow>
      (\<exists>r v'. var_finalize v = (Inr r, v') \<and> \<not> var_valid v' \<and>
         (\<forall>sample. var_add v' sample = (Some finalized_accumulator, v')) \<and>
         var_acc_result v' = (Inl finalized_accumulator, v') \<and>
         var_finalize v' = (Inl finalized_accumulator, v'))) \<and>
   (autocorr_valid a \<longrightarrow>
      (\<exists>r a'. autocorr_finalize a = (Inr r, a') \<and> \<not> autocorr_valid a' \<and>
         (\<forall>sample. autocorr_add a' sample = Some (Some finalized_accumulator, a')) \<and>
         autocorr_acc_result a' = (Inl finalized_accumulator, a') \<and>
         autocorr_finalize a' = (Inl finalized_accumulator, a')))"
proof (intro conjI impI)
  assume "valid acc"
  then show "\<exists>r acc'. finalize acc = (Inr r, acc') \<and> \<not> valid acc' \<and>
         (\<forall>source. operator_shl acc' source = (Some finalized_accumulator, acc')) \<and>
         result acc' = (Inl finalized_accumulator, acc') \<and>
         finalize acc' = (Inl finalized_accumulator, acc')"
    by (rule cov_finalize_invalidates)
next
  assume "var_valid v"
  then show "\<exists>r v'. var_finalize v = (Inr r, v') \<and> \<not> var_valid v' \<and>
         (\<forall>sample. var_add v' sample = (Some finalized_accumulator, v')) \<and>
         var_acc_result v' = (Inl finalized_accumulator, v') \<and>
         var_finalize v' = (Inl finalized_accumulator, v')"
    by (rule var_finalize_invalidates)
next
  assume "autocorr_valid a"
  then show "\<exists>r a'. autocorr_finalize a = (Inr r, a') \<and> \<not> autocorr_valid a' \<and>
         (\<forall>sample. autocorr_add a' sample = Some (Some finalized_accumulator, a')) \<and>
         autocorr_acc_result a' = (Inl finalized_accumulator, a') \<and>
         autocorr_finalize a' = (Inl finalized_accumulator, a')"
    by (rule autocorr_finalize_invalidates)
qed

theorem finalize_invalidates_witness:
  "valid (new_cov_acc 2 1) \<and> var_valid (new_var_acc 2) \<and> autocorr_valid (new_autocorr_acc 1 1 2) \<and>
   (\<exists>r acc'. finalize (new_cov_acc 2 1) = (Inr r, acc') \<and> \<not> valid acc' \<and>
      (\<forall>source. operator_shl acc' source = (Some finalized_accumulator, acc')) \<and>
      result acc' = (Inl finalized_accumulator, acc') \<and>
      finalize acc' = (Inl finalized_accumulator, acc')) \<and>
   (\<exists>r v'. var_finalize (new_var_acc 2) = (Inr r, v') \<and> \<not> var_valid v' \<and>
      (\<forall>sample. var_add v' sample = (Some finalized_accumulator, v')) \<and>
      var_acc_result v' = (Inl finalized_accumulator, v') \<and>
      var_finalize v' = (Inl finalized_accumulator, v')) \<and>
   (\<exists>r a'. autocorr_finalize (new_autocorr_acc 1 1 2) = (Inr r, a') \<and> \<not> autocorr_valid a' \<and>
      (\<forall>sample. autocorr_add a' sample = Some (Some finalized_accumulator, a')) \<and>
      autocorr_acc_result a' = (Inl finalized_accumulator, a') \<and>
      autocorr_finalize a' = (Inl finalized_accumulator, a'))"
proof -
  have h1: "valid (new_cov_acc 2 1)" by (simp add: valid_def new_cov_acc_def)
  have h2: "var_valid (new_var_acc 2)" by (simp add: var_valid_def new_var_acc_def)
  have h3: "autocorr_valid (new_autocorr_acc 1 1 2)"
    by (simp add: autocorr_valid_def new_autocorr_acc_def)
  show ?thesis
    using h1 h2 h3 finalize_invalidates [of "new_cov_acc 2 1" "new_var_acc 2" "new_autocorr_acc 1 1 2"]
    by blast
qed

section \<open>Snapshot and reset\<close>

text \<open>
  Claim C9. On a valid accumulator \<^verbatim>\<open>result()\<close> returns a copy of the store converted to
  mean form and leaves the accumulator itself, store, pending bundle and receiver, as it
  was: it stays valid, and any further sample is taken as if \<^verbatim>\<open>result()\<close> had not been
  called.
\<close>

theorem result_leaves_accumulator:
  assumes "valid acc"
  shows "\<exists>d. store acc = Some d \<and>
           fst (result acc) = Inr \<lparr>result_store = Some (convert_to_mean d)\<rparr> \<and>
           snd (result acc) = acc \<and> valid (snd (result acc)) \<and>
           (\<forall>source. operator_shl (snd (result acc)) source = operator_shl acc source)"
proof -
  from assms obtain d where d: "store acc = Some d" by (auto simp: valid_def)
  then have "result acc = (Inr \<lparr>result_store = Some (convert_to_mean d)\<rparr>, acc)"
    by (rule result_valid_acc)
  with d assms show ?thesis by simp
qed

theorem result_leaves_accumulator_witness:
  "valid (new_cov_acc 2 1) \<and>
   (\<exists>d. store (new_cov_acc 2 1) = Some d \<and>
      fst (result (new_cov_acc 2 1)) = Inr \<lparr>result_store = Some (convert_to_mean d)\<rparr> \<and>
      snd (result (new_cov_acc 2 1)) = new_cov_acc 2 1 \<and> valid (snd (result (new_cov_acc 2 1))) \<and>
      (\<forall>source. operator_shl (snd (result (new_cov_acc 2 1))) source =
                 operator_shl (new_cov_acc 2 1) source))"
proof -
  have h: "valid (new_cov_acc 2 1)" by (simp add: valid_def new_cov_acc_def)
  show ?thesis using h result_leaves_accumulator [OF h] by simp
qed

text \<open>
  Claim C10. \<^verbatim>\<open>reset()\<close> has no validity check. On an invalid accumulator it allocates a
  new store of the accumulator's size, so that the accumulator is valid again with count
  zero and all buffers zero; size, bundle target and receiver are kept.
\<close>

theorem reset_revives:
  assumes "\<not> valid acc"
  shows "valid (cov_acc_reset acc) \<and>
         cov_acc_size (cov_acc_reset acc) = cov_acc_size acc \<and>
         store (cov_acc_reset acc) =
           Some \<lparr>data = replicate (cov_acc_size acc) (Fin 0),
                 data2 = replicate (cov_acc_size acc * cov_acc_size acc) (Fin 0),
                 count = 0\<rparr> \<and>
         bundle_sum (current (cov_acc_reset acc)) = replicate (cov_acc_size acc) (Fin 0) \<and>
         bundle_count (current (cov_acc_reset acc)) = 0 \<and>
         bundle_target (current (cov_acc_reset acc)) = bundle_target (current acc) \<and>
         uplevel (cov_acc_reset acc) = uplevel acc"
  using assms
  by (simp add: valid_def cov_acc_reset_def cov_acc_size_def bundle_size_def bundle_reset_def
      new_cov_data_def cov_data_reset_def Let_def map_const_replicate)

theorem reset_revives_witness:
  "\<not> valid (snd (finalize (new_cov_acc 2 1))) \<and>
   valid (cov_acc_reset (snd (finalize (new_cov_acc 2 1)))) \<and>
   store (cov_acc_reset (snd (finalize (new_cov_acc 2 1)))) =
     Some \<lparr>data = [Fin 0, Fin 0], data2 = [Fin 0, Fin 0, Fin 0, Fin 0], count = 0\<rparr>"
proof -
  have a: "snd (finalize (new_cov_acc 2 1)) = Cov_acc None (new_bundle 2 1) None"
    by (simp add: new_cov_acc_def finalize_def finalize_to_def check_valid_def valid_def)
  have h: "\<not> valid (snd (finalize (new_cov_acc 2 1)))" by (simp add: a valid_def)
  have n: "cov_acc_size (snd (finalize (new_cov_acc 2 1))) = 2"
    by (simp add: a cov_acc_size_def bundle_size_def new_bundle_def bundle_reset_def)
  note t = reset_revives [OF h, unfolded n]
  show ?thesis using h t by (simp add: numeral_2_eq_2)
qed


section \<open>Adding a sample\<close>

lemma length_vector_add_loop: "length (vector_add_loop n xs out) = length out"
  by (induction n arbitrary: out) (simp_all add: Let_def)

lemma vector_add_loop_nth:
  "n \<le> length xs \<Longrightarrow> length out = length xs \<Longrightarrow> k < length out \<Longrightarrow>
   vector_add_loop n xs out ! k =
     (if length xs - n \<le> k then dadd (out ! k) (xs ! k) else out ! k)"
proof (induction n arbitrary: out)
  case 0
  then show ?case by simp
next
  case (Suc n)
  let ?i = "length xs - Suc n"
  let ?out = "out[?i := dadd (out ! ?i) (xs ! ?i)]"
  have n: "n \<le> length xs" and l: "length ?out = length xs" and k: "k < length ?out"
    using Suc.prems by simp_all
  have step: "length xs - n = Suc ?i" using Suc.prems by simp
  have "vector_add_loop (Suc n) xs out ! k = vector_add_loop n xs ?out ! k"
    by (simp add: Let_def)
  also have "\<dots> = (if length xs - n \<le> k then dadd (?out ! k) (xs ! k) else ?out ! k)"
    using Suc.IH [OF n l k] .
  also have "\<dots> = (if ?i \<le> k then dadd (out ! k) (xs ! k) else out ! k)"
  proof -
    consider "k < ?i" | "k = ?i" | "?i < k" by arith
    then show ?thesis using Suc.prems(3) by cases (simp_all add: step)
  qed
  finally show ?case .
qed

lemma vector_add_loop_eq:
  "length out = length xs \<Longrightarrow> vector_add_loop (length xs) xs out = map2 dadd out xs"
  by (rule nth_equalityI) (simp_all add: length_vector_add_loop vector_add_loop_nth)

lemma add_to_mismatch:
  "\<not> is_row_expression source \<Longrightarrow> computed_size source \<noteq> length out \<Longrightarrow>
   add_to source out = Inl size_mismatch"
  by (cases source) auto

lemma add_to_match:
  "\<not> is_row_expression source \<Longrightarrow> wf_computed source \<Longrightarrow> computed_size source = length out \<Longrightarrow>
   add_to source out = Inr (map2 dadd out (coefficients source))"
proof (cases source)
  case (Value_adapter v)
  assume "computed_size source = length out"
  with Value_adapter obtain x where "out = [x]" by (cases out) auto
  with Value_adapter show ?thesis by simp
next
  case (Vector_adapter xs)
  assume "computed_size source = length out"
  then have "length out = length xs" using Vector_adapter by simp
  from vector_add_loop_eq [OF this] this Vector_adapter show ?thesis by simp
next
  case (Eigen_adapter r c xs)
  assume "\<not> is_row_expression source" "computed_size source = length out"
  with Eigen_adapter show ?thesis by simp
qed

lemma add_size_mismatch:
  assumes "valid acc" "\<not> is_row_expression source" "computed_size source \<noteq> cov_acc_size acc"
  shows "operator_shl acc source = (Some size_mismatch, acc)"
proof (cases acc)
  case (Cov_acc st cur up)
  with assms(1) obtain d where d: "st = Some d" by (auto simp: valid_def)
  have "add_to source (bundle_sum cur) = Inl size_mismatch"
    using assms(2,3) Cov_acc by (intro add_to_mismatch) (simp_all add: cov_acc_size_def bundle_size_def)
  with Cov_acc d show ?thesis by (simp add: check_valid_def valid_def)
qed

lemma add_size_match:
  assumes "store acc = Some d" "\<not> is_row_expression source" "wf_computed source"
    and "computed_size source = cov_acc_size acc"
  shows "operator_shl acc source =
    (let cur1 = (current acc)\<lparr>bundle_sum := map2 dadd (bundle_sum (current acc)) (coefficients source),
                               bundle_count := bundle_count (current acc) + 1\<rparr>
     in if is_full cur1 then add_bundle (store acc) cur1 (uplevel acc)
        else (None, Cov_acc (store acc) cur1 (uplevel acc)))"
proof (cases acc)
  case (Cov_acc st cur up)
  have "add_to source (bundle_sum cur) = Inr (map2 dadd (bundle_sum cur) (coefficients source))"
    using assms(2,3,4) Cov_acc by (intro add_to_match) (simp_all add: cov_acc_size_def bundle_size_def)
  with Cov_acc assms(1) show ?thesis by (simp add: Let_def check_valid_def valid_def)
qed


text \<open>
  Claim C7 at an Eigen row vector. \<^verbatim>\<open>eigen_adapter::size()\<close> is \<^verbatim>\<open>in_.size()\<close>, but
  \<^verbatim>\<open>eigen_adapter::add_to\<close> compares the sink with \<^verbatim>\<open>in_.rows()\<close>, which is one for a
  row vector. A row vector of three coefficients has the size of an accumulator of size
  three, and adding it throws \<open>size_mismatch\<close>; its size differs from that of an accumulator
  of size one, and adding it does not throw \<open>size_mismatch\<close>. For the scalar adapter, the
  \<^verbatim>\<open>std::vector\<close> adapter and Eigen columns the lemmas above give what the claim says.
\<close>

theorem eigen_row_vector_rejected:
  "valid (new_cov_acc 3 1) \<and>
   wf_computed (Eigen_adapter 1 3 [Fin 1, Fin 2, Fin 3]) \<and>
   computed_size (Eigen_adapter 1 3 [Fin 1, Fin 2, Fin 3]) = cov_acc_size (new_cov_acc 3 1) \<and>
   operator_shl (new_cov_acc 3 1) (Eigen_adapter 1 3 [Fin 1, Fin 2, Fin 3]) =
     (Some size_mismatch, new_cov_acc 3 1) \<and>
   computed_size (Eigen_adapter 1 3 [Fin 1, Fin 2, Fin 3]) \<noteq> cov_acc_size (new_cov_acc 1 1) \<and>
   fst (operator_shl (new_cov_acc 1 1) (Eigen_adapter 1 3 [Fin 1, Fin 2, Fin 3])) \<noteq>
     Some size_mismatch"
  by (simp add: new_cov_acc_def new_cov_data_def cov_data_reset_def new_bundle_def bundle_reset_def
      valid_def check_valid_def cov_acc_size_def bundle_size_def)


section \<open>Reduction\<close>

lemma those_replicate: "those (replicate k (Some d)) = Some (replicate k d)"
  by (induction k) simp_all

lemma dadd_dscale_succ: "dadd (dscale j x) x = dscale (j + 1) x"
  by (cases x) (simp_all add: algebra_simps)

lemma map2_dadd_dscale: "map2 dadd (map (dscale j) v) v = map (dscale (j + 1)) v"
  by (induction v) (simp_all add: dadd_dscale_succ)

lemma foldl_dadd_replicate:
  "foldl (map2 dadd) (map (dscale j) v) (replicate n v) = map (dscale (j + real n)) v"
proof (induction n arbitrary: j)
  case 0
  then show ?case by simp
next
  case (Suc n)
  have "foldl (map2 dadd) (map (dscale j) v) (replicate (Suc n) v) =
        foldl (map2 dadd) (map (dscale (j + 1)) v) (replicate n v)"
    by (simp add: map2_dadd_dscale)
  also have "\<dots> = map (dscale (j + 1 + real n)) v" by (rule Suc.IH)
  also have "j + 1 + real n = j + real (Suc n)" by simp
  finally show ?case .
qed

lemma dscale_one: "dscale 1 x = x"
  by (cases x) simp_all

lemma map_dscale_one: "map (dscale 1) v = v"
  by (induction v) (simp_all add: dscale_one)

lemma mpi_sum_dadd_replicate:
  assumes "0 < k"
  shows "mpi_sum dadd (replicate k v) = map (dscale (real k)) v"
proof -
  from assms obtain n where k: "k = Suc n" by (cases k) auto
  have "mpi_sum dadd (replicate k v) = foldl (map2 dadd) (map (dscale 1) v) (replicate n v)"
    by (simp add: k mpi_sum_def map_dscale_one)
  also have "\<dots> = map (dscale (1 + real n)) v" by (rule foldl_dadd_replicate)
  also have "1 + real n = real k" by (simp add: k)
  finally show ?thesis .
qed

lemma replicate_update_same: "(replicate k x)[i := x] = replicate k x"
  by (metis length_replicate list_update_beyond list_update_id not_le_imp_less nth_replicate)

lemma inplace_reduce_replicate:
  assumes "reducer_root r < k"
  shows "inplace_reduce r add (replicate k v) =
           Inr ((replicate k v)[reducer_root r := (if v = [] then [] else mpi_sum add (replicate k v))])"
proof (cases "v = []")
  case True
  then show ?thesis
    by (simp add: inplace_reduce_def list_all_length replicate_update_same)
next
  case False
  with assms have "\<not> list_all (\<lambda>b. length b = 0) (replicate k v)"
    by (auto simp: list_all_length)
  moreover have "list_all (\<lambda>b. length b = length (hd (replicate k v))) (replicate k v)"
    using assms by (simp add: list_all_length)
  ultimately show ?thesis using assms False by (simp add: inplace_reduce_def)
qed


lemma foldl_map2_Nil: "foldl (map2 f) [] bs = []"
  by (induction bs) simp_all

lemma mpi_sum_all_empty:
  "list_all (\<lambda>b. length b = 0) bufs \<Longrightarrow> mpi_sum add bufs = []"
  by (cases bufs) (simp_all add: mpi_sum_def foldl_map2_Nil)

lemma inplace_reduce_length:
  "inplace_reduce r add bufs = Inr bufs' \<Longrightarrow> length bufs' = length bufs"
  by (auto simp: inplace_reduce_def split: if_splits)

lemma inplace_reduce_root:
  assumes "inplace_reduce r add bufs = Inr bufs'" and "reducer_root r < length bufs"
  shows "bufs' ! reducer_root r = mpi_sum add bufs"
proof (cases "list_all (\<lambda>b. length b = 0) bufs")
  case True
  with assms(1) have "bufs' = bufs" by (simp add: inplace_reduce_def)
  moreover have "bufs ! reducer_root r = []"
    using True assms(2) by (simp add: list_all_length)
  ultimately show ?thesis using True by (simp add: mpi_sum_all_empty)
next
  case False
  with assms show ?thesis by (auto simp: inplace_reduce_def split: if_splits)
qed

lemma inplace_reduce_nonempty_root:
  assumes "inplace_reduce r add bufs = Inr bufs'" and "\<not> list_all (\<lambda>b. length b = 0) bufs"
  shows "reducer_root r < length bufs"
  using assms by (auto simp: inplace_reduce_def split: if_splits)

lemma foldl_plus_counts:
  "foldl (map2 (+)) [a] (map (\<lambda>d. [count d]) ds) = [a + sum_list (map count ds)]"
  by (induction ds arbitrary: a) (simp_all add: add.assoc)

lemma mpi_sum_counts:
  "ds \<noteq> [] \<Longrightarrow> mpi_sum (+) (map (\<lambda>d. [count d]) ds) = [sum_list (map count ds)]"
  by (cases ds) (simp_all add: mpi_sum_def foldl_plus_counts)

lemma count_convert_to_sum: "count (convert_to_sum d) = count d"
  by (simp add: convert_to_sum_def Let_def)

lemma count_convert_to_mean: "count (convert_to_mean d) = count d"
  by (simp add: convert_to_mean_def Let_def)

lemma pre_commit_root:
  assumes pc: "pre_commit r ds = Inr ds'" and ne: "ds \<noteq> []"
  shows "length ds' = length ds \<and> reducer_root r < length ds \<and>
         data (ds' ! reducer_root r) = mpi_sum dadd (map (\<lambda>d. data (convert_to_sum d)) ds) \<and>
         data2 (ds' ! reducer_root r) = mpi_sum dadd (map (\<lambda>d. data2 (convert_to_sum d)) ds) \<and>
         count (ds' ! reducer_root r) = sum_list (map count ds)"
proof -
  let ?ds = "map convert_to_sum ds"
  from pc obtain b1 b2 b3 where
      b1: "inplace_reduce r dadd (map data ?ds) = Inr b1"
    and b2: "inplace_reduce r dadd (map data2 ?ds) = Inr b2"
    and b3: "inplace_reduce r (+) (map (\<lambda>d. [count d]) ?ds) = Inr b3"
    and ds': "ds' = map (\<lambda>(d, x, y, z). d\<lparr>data := x, data2 := y,
                 count := (case z of [] \<Rightarrow> count d | c # _ \<Rightarrow> c)\<rparr>) (zip ?ds (zip b1 (zip b2 b3)))"
    by (auto simp: pre_commit_def Let_def split: sum.splits)
  have l1: "length b1 = length ds" using inplace_reduce_length [OF b1] by simp
  have l2: "length b2 = length ds" using inplace_reduce_length [OF b2] by simp
  have l3: "length b3 = length ds" using inplace_reduce_length [OF b3] by simp
  have "\<not> list_all (\<lambda>b. length b = 0) (map (\<lambda>d. [count d]) ?ds)"
    using ne by (cases ds) simp_all
  from inplace_reduce_nonempty_root [OF b3 this]
  have root: "reducer_root r < length ds" by simp
  have r1: "b1 ! reducer_root r = mpi_sum dadd (map (\<lambda>d. data (convert_to_sum d)) ds)"
    using inplace_reduce_root [OF b1] root by (simp add: comp_def)
  have r2: "b2 ! reducer_root r = mpi_sum dadd (map (\<lambda>d. data2 (convert_to_sum d)) ds)"
    using inplace_reduce_root [OF b2] root by (simp add: comp_def)
  have "b3 ! reducer_root r = mpi_sum (+) (map (\<lambda>d. [count d]) ?ds)"
    using inplace_reduce_root [OF b3] root by simp
  also have "\<dots> = [sum_list (map count ?ds)]" using ne by (intro mpi_sum_counts) simp
  also have "map count ?ds = map count ds" by (simp add: count_convert_to_sum)
  finally have r3: "b3 ! reducer_root r = [sum_list (map count ds)]" .
  show ?thesis using root l1 l2 l3 r1 r2 r3 by (simp add: ds')
qed

lemma pre_commit_replicate:
  assumes "reducer_root r < k"
  shows "\<exists>ds'. pre_commit r (replicate k d) = Inr ds'"
  using assms by (simp add: pre_commit_def Let_def inplace_reduce_replicate)


lemma those_Some: "those xs = Some ys \<Longrightarrow> xs = map Some ys"
proof (induction xs arbitrary: ys)
  case Nil
  then show ?case by simp
next
  case (Cons a xs)
  then show ?case by (auto split: option.splits)
qed

lemma unat_scaled_count:
  assumes "1 \<le> c" and "k * unat c < 2 ^ 64"
  shows "unat (of_nat k * c) = k * unat (c :: size_t)"
proof -
  have "0 < unat c" using assms(1) by (simp add: word_le_nat_alt)
  then have "k \<le> k * unat c" by simp
  then have k: "k < 2 ^ 64" using assms(2) by (rule le_less_trans)
  have "unat (of_nat k :: size_t) = k" using k by (simp add: unat_of_nat)
  then have "unat (of_nat k * c) = (k * unat c) mod 2 ^ 64"
    by (simp add: unat_word_ariths)
  with assms(2) show ?thesis by simp
qed

lemma mean_of_copies:
  "0 < k \<Longrightarrow> c \<noteq> 0 \<Longrightarrow> is_finite x \<Longrightarrow> ddiv (dscale k (dscale c x)) (k * c) = x"
  by (cases x) simp_all


text \<open>
  Claim C4. Let \<open>k\<close> ranks hold the same valid result with finite mean and at least one
  sample, let the root be one of the ranks, and let \<open>k\<close> times the local count fit into a
  \<^verbatim>\<open>size_t\<close>. Then the full reduction succeeds; on the root the count is \<open>k\<close> times the
  local count and the mean is the local mean; every other rank is left without store,
  that is, invalid.
\<close>

theorem reduce_identical_results:
  assumes root: "reducer_root r < k"
    and res: "result_store res = Some d"
    and c1: "1 \<le> count d" and nov: "k * unat (count d) < 2 ^ 64"
    and fin: "\<forall>x \<in> set (data d). is_finite x"
  shows "\<exists>rs d'. reduce r (replicate k res) = Inr rs \<and> length rs = k \<and>
           result_store (rs ! reducer_root r) = Some d' \<and>
           unat (count d') = k * unat (count d) \<and> data d' = data d \<and>
           (\<forall>i < k. i \<noteq> reducer_root r \<longrightarrow> \<not> result_valid (rs ! i))"
proof -
  let ?root = "reducer_root r"
  have k0: "0 < k" using root by simp
  obtain ds' where pc: "pre_commit r (replicate k d) = Inr ds'"
    using pre_commit_replicate [OF root] by blast
  have ne: "replicate k d \<noteq> []" using k0 by simp
  note pr = pre_commit_root [OF pc ne]
  have len: "length ds' = k" using pr by simp
  let ?rs = "map (\<lambda>(rank, d). post_commit r k rank d) (zip [0..<k] ds')"
  let ?d' = "convert_to_mean (ds' ! ?root)"
  have red: "reduce r (replicate k res) = Inr ?rs"
    by (simp add: reduce_def cov_result_reduce_def res those_replicate pc commit_def Let_def len)
  have at_root: "result_store (?rs ! ?root) = Some ?d'"
    using root len by (simp add: post_commit_def get_setup_def am_root_def)
  have others: "\<forall>i < k. i \<noteq> ?root \<longrightarrow> \<not> result_valid (?rs ! i)"
    using len by (simp add: post_commit_def get_setup_def am_root_def result_valid_def)
  have cnt: "count (ds' ! ?root) = of_nat k * count d"
    using pr by (simp add: sum_list_replicate)
  have ucnt: "unat (count (ds' ! ?root)) = k * unat (count d)"
    unfolding cnt using c1 nov by (rule unat_scaled_count)
  then have td: "to_double (count (ds' ! ?root)) = real k * to_double (count d)"
    by (simp only: to_double_def of_nat_mult)
  have cz: "to_double (count d) \<noteq> 0"
    using c1 by (auto simp: to_double_eq_0)
  have "data (ds' ! ?root) = mpi_sum dadd (replicate k (data (convert_to_sum d)))"
    using pr by simp
  also have "\<dots> = map (dscale (real k)) (data (convert_to_sum d))"
    using k0 by (rule mpi_sum_dadd_replicate)
  also have "data (convert_to_sum d) = map (dscale (to_double (count d))) (data d)"
    by (simp add: convert_to_sum_def Let_def)
  finally have sums: "data (ds' ! ?root) =
      map (dscale (real k)) (map (dscale (to_double (count d))) (data d))" .
  have "data ?d' = map (\<lambda>x. ddiv x (real k * to_double (count d))) (data (ds' ! ?root))"
    by (simp add: convert_to_mean_def Let_def td)
  also have "\<dots> = data d"
    unfolding sums using fin k0 cz by (intro nth_equalityI) (simp_all add: mean_of_copies)
  finally have mean: "data ?d' = data d" .
  have "unat (count ?d') = k * unat (count d)"
    using ucnt by (simp add: count_convert_to_mean)
  with red at_root others mean len show ?thesis by auto
qed


theorem reduce_identical_results_witness:
  "reducer_root \<lparr>reducer_root = 1\<rparr> < 2 \<and>
   (\<exists>rs d'. reduce \<lparr>reducer_root = 1\<rparr>
        (replicate 2 \<lparr>result_store = Some \<lparr>data = [Fin 2], data2 = [Fin 2], count = 2\<rparr>\<rparr>) = Inr rs \<and>
      length rs = 2 \<and> result_store (rs ! 1) = Some d' \<and> unat (count d') = 4 \<and>
      data d' = [Fin 2] \<and> \<not> result_valid (rs ! 0))"
proof -
  let ?r = "\<lparr>reducer_root = 1\<rparr>"
  let ?d = "\<lparr>data = [Fin 2], data2 = [Fin 2], count = 2 :: size_t\<rparr>"
  let ?res = "\<lparr>result_store = Some ?d\<rparr>"
  have h1: "reducer_root ?r < 2" by simp
  have h2: "result_store ?res = Some ?d" by simp
  have h3: "1 \<le> count ?d" by simp
  have h4: "2 * unat (count ?d) < 2 ^ 64" by simp
  have h5: "\<forall>x \<in> set (data ?d). is_finite x" by simp
  from reduce_identical_results [OF h1 h2 h3 h4 h5] obtain rs d' where
    a: "reduce ?r (replicate 2 ?res) = Inr rs" "length rs = 2"
      "result_store (rs ! reducer_root ?r) = Some d'"
      "unat (count d') = 2 * unat (count ?d)" "data d' = data ?d"
    and b: "\<forall>i < 2. i \<noteq> reducer_root ?r \<longrightarrow> \<not> result_valid (rs ! i)"
    by blast
  from b have "\<not> result_valid (rs ! 0)" by simp
  with a h1 show ?thesis by auto
qed


text \<open>
  Claim C5, as the code has it. With \<^verbatim>\<open>mpi_reducer\<close> every \<^verbatim>\<open>reduce\<close> call of the
  pre-commit phase performs the sum-reduction at once: when the pre-commit phase alone has
  returned, the root holds the sums over all ranks of the means, outer products and counts
  in sum form. \<^verbatim>\<open>commit()\<close> changes nothing, and the full reduction equals the
  pre-commit phase followed by the post-commit phase.
\<close>

theorem pre_commit_phase_reduces:
  assumes red: "cov_result_reduce r True False rs = Inr rs'" and ne: "rs \<noteq> []"
  shows "\<exists>ds ds'. map result_store rs = map Some ds \<and> map result_store rs' = map Some ds' \<and>
           commit r ds' = ds' \<and>
           cov_result_reduce r True True rs =
             cov_result_reduce r False True (map (\<lambda>d. \<lparr>result_store = Some d\<rparr>) ds') \<and>
           length rs' = length rs \<and> reducer_root r < length rs \<and>
           data (ds' ! reducer_root r) = mpi_sum dadd (map (\<lambda>d. data (convert_to_sum d)) ds) \<and>
           data2 (ds' ! reducer_root r) = mpi_sum dadd (map (\<lambda>d. data2 (convert_to_sum d)) ds) \<and>
           count (ds' ! reducer_root r) = sum_list (map count ds)"
proof -
  from red obtain ds where th: "those (map result_store rs) = Some ds"
    by (auto simp: cov_result_reduce_def split: option.splits)
  with red obtain ds' where pc: "pre_commit r ds = Inr ds'"
    and rs': "rs' = map (\<lambda>d. \<lparr>result_store = Some d\<rparr>) ds'"
    by (auto simp: cov_result_reduce_def split: sum.splits)
  have m: "map result_store rs = map Some ds" using th by (rule those_Some)
  then have "length rs = length ds" by (metis length_map)
  with ne have ne': "ds \<noteq> []" by auto
  note pr = pre_commit_root [OF pc ne']
  have m': "map result_store rs' = map Some ds'" by (simp add: rs' comp_def)
  have th': "those (map result_store (map (\<lambda>d. \<lparr>result_store = Some d\<rparr>) ds')) = Some ds'"
    by (induction ds') simp_all
  have split: "cov_result_reduce r True True rs =
      cov_result_reduce r False True (map (\<lambda>d. \<lparr>result_store = Some d\<rparr>) ds')"
    unfolding cov_result_reduce_def th th' by (simp add: pc commit_def)
  have "map result_store rs = map Some ds \<and> map result_store rs' = map Some ds' \<and>
        commit r ds' = ds' \<and>
        cov_result_reduce r True True rs =
          cov_result_reduce r False True (map (\<lambda>d. \<lparr>result_store = Some d\<rparr>) ds') \<and>
        length rs' = length rs \<and> reducer_root r < length rs \<and>
        data (ds' ! reducer_root r) = mpi_sum dadd (map (\<lambda>d. data (convert_to_sum d)) ds) \<and>
        data2 (ds' ! reducer_root r) = mpi_sum dadd (map (\<lambda>d. data2 (convert_to_sum d)) ds) \<and>
        count (ds' ! reducer_root r) = sum_list (map count ds)"
    using m m' pr split \<open>length rs = length ds\<close> by (simp add: commit_def rs')
  then show ?thesis by blast
qed

theorem pre_commit_phase_reduces_witness:
  "cov_result_reduce \<lparr>reducer_root = 0\<rparr> True False
     [\<lparr>result_store = Some \<lparr>data = [Fin 2], data2 = [Fin 2], count = 2\<rparr>\<rparr>,
      \<lparr>result_store = Some \<lparr>data = [Fin 3], data2 = [Fin 1], count = 4\<rparr>\<rparr>] =
   Inr [\<lparr>result_store = Some \<lparr>data = [Fin 16], data2 = [Fin 49], count = 6\<rparr>\<rparr>,
        \<lparr>result_store = Some \<lparr>data = [Fin 12], data2 = [Fin 39], count = 4\<rparr>\<rparr>] \<and>
   (\<exists>ds'. map result_store
       [\<lparr>result_store = Some \<lparr>data = [Fin 16], data2 = [Fin 49], count = 6\<rparr>\<rparr>,
        \<lparr>result_store = Some \<lparr>data = [Fin 12], data2 = [Fin 39], count = 4\<rparr>\<rparr>] = map Some ds' \<and>
      commit \<lparr>reducer_root = 0\<rparr> ds' = ds' \<and>
      count (ds' ! reducer_root \<lparr>reducer_root = 0\<rparr>) = 6)"
proof -
  let ?r = "\<lparr>reducer_root = 0\<rparr>"
  let ?rs = "[\<lparr>result_store = Some \<lparr>data = [Fin 2], data2 = [Fin 2], count = 2 :: size_t\<rparr>\<rparr>,
      \<lparr>result_store = Some \<lparr>data = [Fin 3], data2 = [Fin 1], count = 4\<rparr>\<rparr>]"
  let ?rs' = "[\<lparr>result_store = Some \<lparr>data = [Fin 16], data2 = [Fin 49], count = 6 :: size_t\<rparr>\<rparr>,
        \<lparr>result_store = Some \<lparr>data = [Fin 12], data2 = [Fin 39], count = 4\<rparr>\<rparr>]"
  have h1: "cov_result_reduce ?r True False ?rs = Inr ?rs'"
    by (simp add: cov_result_reduce_def pre_commit_def inplace_reduce_def mpi_sum_def
        convert_to_sum_def outer_def to_double_def Let_def)
  have h2: "?rs \<noteq> []" by simp
  from pre_commit_phase_reduces [OF h1 h2] obtain ds ds' where
    "map result_store ?rs = map Some ds" "map result_store ?rs' = map Some ds'"
    "commit ?r ds' = ds'" "count (ds' ! reducer_root ?r) = sum_list (map count ds)"
    by blast
  moreover from this(1) have "ds = [\<lparr>data = [Fin 2], data2 = [Fin 2], count = 2\<rparr>,
      \<lparr>data = [Fin 3], data2 = [Fin 1], count = 4\<rparr>]"
    by (auto simp: map_eq_Cons_conv)
  ultimately show ?thesis using h1 by auto
qed


text \<open>
  Two ranks with the same result of two samples: after the pre-commit phase, before any
  \<^verbatim>\<open>commit()\<close>, the root already holds the global sum and the global count of four, and
  \<^verbatim>\<open>commit()\<close> returns the stores as they are.
\<close>

theorem commit_counterexample:
  "cov_result_reduce \<lparr>reducer_root = 0\<rparr> True False
     [\<lparr>result_store = Some \<lparr>data = [Fin 2], data2 = [Fin 2], count = 2\<rparr>\<rparr>,
      \<lparr>result_store = Some \<lparr>data = [Fin 2], data2 = [Fin 2], count = 2\<rparr>\<rparr>] =
   Inr [\<lparr>result_store = Some \<lparr>data = [Fin 8], data2 = [Fin 20], count = 4\<rparr>\<rparr>,
        \<lparr>result_store = Some \<lparr>data = [Fin 4], data2 = [Fin 10], count = 2\<rparr>\<rparr>] \<and>
   commit \<lparr>reducer_root = 0\<rparr>
     [\<lparr>data = [Fin 8], data2 = [Fin 20], count = 4\<rparr>, \<lparr>data = [Fin 4], data2 = [Fin 10], count = 2\<rparr>] =
     [\<lparr>data = [Fin 8], data2 = [Fin 20], count = 4\<rparr>, \<lparr>data = [Fin 4], data2 = [Fin 10], count = 2\<rparr>]"
  by (simp add: cov_result_reduce_def pre_commit_def inplace_reduce_def mpi_sum_def commit_def
      convert_to_sum_def outer_def to_double_def Let_def)


section \<open>Level lookup\<close>

lemma find_level_scan_Inr:
  "find_level_scan n ls m = Inr i \<longleftrightarrow>
     i < n \<and> m \<le> level_count (ls ! i) \<and> (\<forall>j. i < j \<and> j < n \<longrightarrow> level_count (ls ! j) < m)"
proof (induction n)
  case 0
  then show ?case by simp
next
  case (Suc n)
  show ?case
  proof (cases "m \<le> level_count (ls ! n)")
    case True
    then show ?thesis by (auto simp: not_less less_Suc_eq dest: leD)
  next
    case False
    then show ?thesis using Suc by (auto simp: less_Suc_eq not_le)
  qed
qed

lemma find_level_scan_Inl:
  "find_level_scan n ls m = Inl e \<longleftrightarrow> e = out_of_range \<and> (\<forall>j < n. level_count (ls ! j) < m)"
  by (induction n) (auto simp: less_Suc_eq not_le)


text \<open>
  Claim C8. \<^verbatim>\<open>find_level\<close> returns a level index exactly when that level has at least
  \<open>min_samples\<close> samples and every coarser level has fewer; it fails, and then with
  \<open>out_of_range\<close>, exactly when every level has fewer. The default floor is 256.
\<close>

theorem find_level_coarsest:
  "(find_level r m = Inr i \<longleftrightarrow>
      i < nlevel r \<and> m \<le> level_count (level r ! i) \<and>
      (\<forall>j. i < j \<and> j < nlevel r \<longrightarrow> level_count (level r ! j) < m)) \<and>
   (find_level r m = Inl e \<longleftrightarrow>
      e = out_of_range \<and> (\<forall>j < nlevel r. level_count (level r ! j) < m)) \<and>
   default_min_samples = 256"
  by (simp add: find_level_def find_level_scan_Inr find_level_scan_Inl default_min_samples_def)

theorem find_level_coarsest_witness:
  "find_level \<lparr>level = [\<lparr>level_count = 4\<rparr>, \<lparr>level_count = 2\<rparr>]\<rparr> 2 = Inr 1 \<and>
   find_level \<lparr>level = [\<lparr>level_count = 4\<rparr>, \<lparr>level_count = 2\<rparr>]\<rparr> 5 = Inl out_of_range"
proof -
  let ?r = "\<lparr>level = [\<lparr>level_count = 4\<rparr>, \<lparr>level_count = 2\<rparr>]\<rparr>"
  have a: "find_level ?r 2 = Inr 1"
    using find_level_coarsest [of ?r 2 1 out_of_range] by (simp add: nlevel_def)
  have b: "find_level ?r 5 = Inl out_of_range"
    using find_level_coarsest [of ?r 5 0 out_of_range] by (simp add: nlevel_def less_Suc_eq)
  from a b show ?thesis by simp
qed

end
